theory Spec2Isabelle
  imports Complex_Main "HOL-Library.Multiset"
begin

section \<open>Numbers, matrices and errors\<close>

text \<open>
  The program computes in single precision (\<open>float\<close>, Eigen's \<open>MatrixXf\<close>).  The
  dimensionality reduction and the hierarchical merger are embedded over the reals: a
  finite \<open>float\<close> is idealised as a \<^typ>\<open>real\<close> there, and the concrete inputs used for
  them are small integers and dyadic fractions, on which the float computation is exact.
  The k-means engines and the entropy are embedded on \<open>float\<close> values, with the rounding
  of every operation, the infinities and the NaN (section on single precision below).

  A matrix is the list of its rows.  An index or a variable that the program reads
  without it being defined (undefined behaviour in C++) is an \<open>error\<close> value.
\<close>

type_synonym matrix = "real list list"

datatype error = OutOfRange | Uninitialised | AssertionFailed | IntOverflow

text \<open>Counts and indices are C++ \<open>int\<close> (32 bits).  They are natural numbers here, and a
  product that leaves the range of \<open>int\<close> (a signed overflow, undefined in C++) is an error.\<close>

definition INT_MAX :: nat where
  "INT_MAX = 2147483647"

definition FLT_MAX :: real where
  "FLT_MAX = (2 - 1 / 2 ^ 23) * 2 ^ 127"

definition FLT_MIN :: real where
  "FLT_MIN = 1 / 2 ^ 126"

text \<open>\<open>const float& TOR_1 = 0.999\<close>\<close>

definition TOR_1 :: real where
  "TOR_1 = 999 / 1000"

text \<open>Eigen's \<open>v.squaredNorm()\<close>, \<open>v.norm()\<close> and \<open>v.mean()\<close> on a vector, and the
  difference of two rows.\<close>

definition squaredNorm :: "real list \<Rightarrow> real" where
  "squaredNorm v = sum_list (map (\<lambda>x. x * x) v)"

definition norm_f :: "real list \<Rightarrow> real" where
  "norm_f v = sqrt (squaredNorm v)"

definition mean_f :: "real list \<Rightarrow> real" where
  "mean_f v = sum_list v / real (length v)"

definition vsub :: "real list \<Rightarrow> real list \<Rightarrow> real list" where
  "vsub u v = map (\<lambda>(x, y). x - y) (zip u v)"

definition mcol :: "matrix \<Rightarrow> nat \<Rightarrow> real list" where
  "mcol M j = map (\<lambda>r. r ! j) M"

definition mat_mul :: "matrix \<Rightarrow> matrix \<Rightarrow> nat \<Rightarrow> matrix" where
  "mat_mul A B k = map (\<lambda>r. map (\<lambda>j. sum_list (map (\<lambda>(x, y). x * y) (zip r (mcol B j)))) [0..<k]) A"

text \<open>\<open>M.squaredNorm()\<close> of a matrix: the sum of the squares of all entries.\<close>

definition msquaredNorm :: "matrix \<Rightarrow> real" where
  "msquaredNorm M = sum_list (map squaredNorm M)"


section \<open>Dimensionality reduction: \<open>PCA_Cluster::performSVD\<close>\<close>

text \<open>
  \<open>performSVD\<close> centres the data, asks Eigen's \<open>JacobiSVD\<close> for the thin matrix \<open>V\<close> of
  right singular vectors, multiplies, and chooses \<open>PC_Number\<close>.  The decomposition is
  Eigen's, not this repository's: its result \<open>SingVec\<close> (\<open>Column\<close> rows, \<open>r\<close> columns) is a
  parameter of the model.
\<close>

definition meanTrajectory :: "matrix \<Rightarrow> nat \<Rightarrow> real list" where
  "meanTrajectory data Column = map (\<lambda>i. mean_f (mcol data i)) [0..<Column]"

definition centered :: "matrix \<Rightarrow> nat \<Rightarrow> matrix" where
  "centered data Column = map (\<lambda>row. vsub row (meanTrajectory data Column)) data"

text \<open>
  The loop
  \<^verbatim>\<open>for (int i = 0; i < Column; ++i) {
     tempSum += coefficient.transpose().row(i).squaredNorm();
     if (tempSum > threshold) { PC_Number = i; break; } }\<close>
  over the remaining indices.  \<open>PC_Number\<close> is an uninitialised local of the caller: when the
  loop ends without the \<open>break\<close> it is read undefined by \<open>MatrixXf(Row, PC_Number)\<close>.
  Column \<open>i\<close> of \<open>coefficient\<close> exists only for \<open>i < r\<close>.
\<close>

fun pc_loop :: "matrix \<Rightarrow> nat \<Rightarrow> real \<Rightarrow> real \<Rightarrow> nat list \<Rightarrow> error + nat" where
  "pc_loop coefficient r threshold tempSum [] = Inl Uninitialised"
| "pc_loop coefficient r threshold tempSum (i # rest) =
     (if r \<le> i then Inl OutOfRange
      else let tempSum' = tempSum + squaredNorm (mcol coefficient i)
           in if tempSum' > threshold then Inr i
              else pc_loop coefficient r threshold tempSum' rest)"

definition choose_PC_Number :: "matrix \<Rightarrow> nat \<Rightarrow> nat \<Rightarrow> error + nat" where
  "choose_PC_Number coefficient r Column =
     (let varianceSummation = msquaredNorm coefficient;
          threshold = TOR_1 * varianceSummation
      in pc_loop coefficient r threshold 0 [0..<Column])"

text \<open>The outputs of \<open>performSVD\<close>: \<open>cArray\<close> (the first \<open>PC_Number\<close> columns of the
  coefficients) and \<open>PC_Number\<close>.\<close>

definition performSVD :: "matrix \<Rightarrow> nat \<Rightarrow> matrix \<Rightarrow> nat \<Rightarrow> error + (matrix \<times> nat)" where
  "performSVD data Column SingVec r =
     (let temp = centered data Column;
          coefficient = mat_mul temp SingVec r
      in case choose_PC_Number coefficient r Column of
           Inl e \<Rightarrow> Inl e
         | Inr PC_Number \<Rightarrow> Inr (map (take PC_Number) coefficient, PC_Number))"

text \<open>The cumulative squared-coefficient energy of the first \<open>k\<close> directions.\<close>

definition cumulative_energy :: "matrix \<Rightarrow> nat \<Rightarrow> real" where
  "cumulative_energy coefficient k = (\<Sum>i<k. squaredNorm (mcol coefficient i))"


section \<open>Single precision\<close>

text \<open>
  The k-means engines and the entropy compute on \<open>float\<close>.  A \<open>float\<close> value is a real
  number (\<open>Finite 0\<close> is the positive zero), the negative zero, an infinity or a NaN.  The
  scalar operations of C++ on \<open>float\<close> are those of IEEE 754 binary32 with rounding to
  nearest, ties to even: the exact result, rounded.  Every operation is rounded on its
  own, as on a platform that evaluates \<open>float\<close> expressions in \<open>float\<close> (no wider
  intermediate precision, no fused multiply-add).  Comparisons are exact; every
  comparison with a NaN is false.
\<close>

datatype fval = Finite real | NegZero | PInf | NInf | NaN

type_synonym fmatrix = "fval list list"

definition is_nan :: "fval \<Rightarrow> bool" where
  "is_nan x \<longleftrightarrow> x = NaN"

definition is_inf :: "fval \<Rightarrow> bool" where
  "is_inf x \<longleftrightarrow> x = PInf \<or> x = NInf"

definition is_zero :: "fval \<Rightarrow> bool" where
  "is_zero x \<longleftrightarrow> x = Finite 0 \<or> x = NegZero"

definition neg_sign :: "fval \<Rightarrow> bool" where
  "neg_sign x = (case x of Finite r \<Rightarrow> r < 0 | NegZero \<Rightarrow> True | NInf \<Rightarrow> True | _ \<Rightarrow> False)"

definition val :: "fval \<Rightarrow> real" where
  "val x = (case x of Finite r \<Rightarrow> r | _ \<Rightarrow> 0)"

definition signed_zero :: "bool \<Rightarrow> fval" where
  "signed_zero neg = (if neg then NegZero else Finite 0)"

definition signed_inf :: "bool \<Rightarrow> fval" where
  "signed_inf neg = (if neg then NInf else PInf)"

text \<open>
  Rounding a nonzero real to binary32.  The exponent of \<open>a > 0\<close> is the \<open>e\<close> with
  \<open>2^e \<le> a < 2^(e+1)\<close>, kept within \<open>-126\<close> (below it the numbers are subnormal) and \<open>128\<close>
  (from there on the result is an infinity); the spacing of the floats around \<open>a\<close> is
  \<open>2^(e-23)\<close>, and \<open>a\<close> goes to the nearest multiple of it, to the even one in a tie.
\<close>

definition pow2 :: "int \<Rightarrow> real" where
  "pow2 k = (if 0 \<le> k then 2 ^ nat k else 1 / 2 ^ nat (- k))"

function exp_above :: "real \<Rightarrow> int \<Rightarrow> int" where
  "exp_above a e = (if 2 \<le> a \<and> e < 128 then exp_above (a / 2) (e + 1) else e)"
  by pat_completeness auto
termination by (relation "measure (\<lambda>(a, e). nat (128 - e))") auto

function exp_below :: "real \<Rightarrow> int \<Rightarrow> int" where
  "exp_below a e = (if a < 1 \<and> - 126 < e then exp_below (a * 2) (e - 1) else e)"
  by pat_completeness auto
termination by (relation "measure (\<lambda>(a, e). nat (e + 126))") auto

declare exp_above.simps [simp del]
declare exp_below.simps [simp del]

definition exponent32 :: "real \<Rightarrow> int" where
  "exponent32 a = (if 1 \<le> a then exp_above a 0 else exp_below a 0)"

definition round_even :: "real \<Rightarrow> int" where
  "round_even m =
     (if m - of_int \<lfloor>m\<rfloor> < 1 / 2 then \<lfloor>m\<rfloor>
      else if 1 / 2 < m - of_int \<lfloor>m\<rfloor> then \<lfloor>m\<rfloor> + 1
      else if even \<lfloor>m\<rfloor> then \<lfloor>m\<rfloor> else \<lfloor>m\<rfloor> + 1)"

definition quantum :: "real \<Rightarrow> real" where
  "quantum a = pow2 (exponent32 a - 23)"

definition pack :: "bool \<Rightarrow> real \<Rightarrow> int \<Rightarrow> fval" where
  "pack neg q n =
     (if 2 ^ 128 \<le> of_int n * q then signed_inf neg
      else if n = 0 then signed_zero neg
      else Finite (if neg then - (of_int n * q) else of_int n * q))"

definition round32 :: "real \<Rightarrow> fval" where
  "round32 x =
     (if x = 0 then Finite 0
      else pack (x < 0) (quantum \<bar>x\<bar>) (round_even (\<bar>x\<bar> / quantum \<bar>x\<bar>)))"

text \<open>Unary minus and \<open>abs\<close> (read as the floating-point overload: the header that
  fixes the overload is not part of the source).\<close>

definition fneg :: "fval \<Rightarrow> fval" where
  "fneg x = (case x of Finite r \<Rightarrow> (if r = 0 then NegZero else Finite (- r))
             | NegZero \<Rightarrow> Finite 0 | PInf \<Rightarrow> NInf | NInf \<Rightarrow> PInf | NaN \<Rightarrow> NaN)"

definition fabs :: "fval \<Rightarrow> fval" where
  "fabs x = (case x of Finite r \<Rightarrow> Finite \<bar>r\<bar> | NegZero \<Rightarrow> Finite 0 | PInf \<Rightarrow> PInf
             | NInf \<Rightarrow> PInf | NaN \<Rightarrow> NaN)"

text \<open>\<open>x + y\<close>, \<open>x - y\<close>, \<open>x * y\<close> and \<open>x / y\<close> on \<open>float\<close>.\<close>

definition fadd :: "fval \<Rightarrow> fval \<Rightarrow> fval" where
  "fadd x y =
     (if is_nan x \<or> is_nan y then NaN
      else if is_inf x \<or> is_inf y then
        (if is_inf x \<and> is_inf y \<and> x \<noteq> y then NaN else if is_inf x then x else y)
      else if is_zero x \<and> is_zero y then (if x = NegZero \<and> y = NegZero then NegZero else Finite 0)
      else if val x + val y = 0 then Finite 0
      else round32 (val x + val y))"

definition fsub :: "fval \<Rightarrow> fval \<Rightarrow> fval" where
  "fsub x y = fadd x (fneg y)"

definition fmul :: "fval \<Rightarrow> fval \<Rightarrow> fval" where
  "fmul x y =
     (if is_nan x \<or> is_nan y then NaN
      else if (is_inf x \<and> is_zero y) \<or> (is_zero x \<and> is_inf y) then NaN
      else if is_inf x \<or> is_inf y then signed_inf (neg_sign x \<noteq> neg_sign y)
      else if is_zero x \<or> is_zero y then signed_zero (neg_sign x \<noteq> neg_sign y)
      else round32 (val x * val y))"

definition fdiv :: "fval \<Rightarrow> fval \<Rightarrow> fval" where
  "fdiv x y =
     (if is_nan x \<or> is_nan y then NaN
      else if (is_inf x \<and> is_inf y) \<or> (is_zero x \<and> is_zero y) then NaN
      else if is_inf x \<or> is_zero y then signed_inf (neg_sign x \<noteq> neg_sign y)
      else if is_zero x \<or> is_inf y then signed_zero (neg_sign x \<noteq> neg_sign y)
      else round32 (val x / val y))"

text \<open>\<open>x < y\<close> and \<open>x <= y\<close>; \<open>x > y\<close> is \<open>flt y x\<close> and \<open>x >= y\<close> is \<open>fle y x\<close>.\<close>

definition flt :: "fval \<Rightarrow> fval \<Rightarrow> bool" where
  "flt x y \<longleftrightarrow> \<not> is_nan x \<and> \<not> is_nan y \<and> x \<noteq> PInf \<and> y \<noteq> NInf
                \<and> (x = NInf \<or> y = PInf \<or> val x < val y)"

definition fle :: "fval \<Rightarrow> fval \<Rightarrow> bool" where
  "fle x y \<longleftrightarrow> \<not> is_nan x \<and> \<not> is_nan y
                \<and> (x = NInf \<or> y = PInf \<or> (\<not> is_inf x \<and> \<not> is_inf y \<and> val x \<le> val y))"

text \<open>The conversion of an \<open>int\<close> (a count, not negative) to \<open>float\<close>, as in \<open>float(Row)\<close>.\<close>

definition float_of_int :: "nat \<Rightarrow> fval" where
  "float_of_int n = round32 (real n)"

text \<open>The \<open>double\<close> nearest to \<open>0.01\<close>, the value of the literals \<open>1.0e-2\<close> and \<open>0.01\<close>: a
  \<open>float\<close> compared with it is converted to \<open>double\<close>, which changes no value.\<close>

definition DBL_0_01 :: real where
  "DBL_0_01 = 5764607523034235 / 2 ^ 59"

text \<open>
  What Eigen computes on rows is Eigen's, not this repository's: the order in which
  \<open>norm()\<close> sums the squares and the way a row is divided by a scalar are not fixed by the
  source.  The three row operations of the engines are parameters of the model:
  \<open>a += b\<close>, \<open>a /= n\<close> for an \<open>int\<close> count \<open>n\<close>, and \<open>(a - b).norm()\<close>.
\<close>

record eigen =
  row_add :: "fval list \<Rightarrow> fval list \<Rightarrow> fval list"
  row_div :: "fval list \<Rightarrow> nat \<Rightarrow> fval list"
  row_dist :: "fval list \<Rightarrow> fval list \<Rightarrow> fval"

text \<open>Their plain reading, coefficient by coefficient in ascending order with a true
  division, for the runs on concrete inputs (rows of one coefficient, on which no order
  is left to choose).\<close>

definition fsqrt :: "fval \<Rightarrow> fval" where
  "fsqrt x = (case x of Finite r \<Rightarrow> (if r < 0 then NaN else round32 (sqrt r))
              | NegZero \<Rightarrow> NegZero | PInf \<Rightarrow> PInf | NInf \<Rightarrow> NaN | NaN \<Rightarrow> NaN)"

definition eigen32 :: eigen where
  "eigen32 =
     \<lparr>row_add = (\<lambda>a b. map (\<lambda>(x, y). fadd x y) (zip a b)),
      row_div = (\<lambda>a n. map (\<lambda>x. fdiv x (float_of_int n)) a),
      row_dist = (\<lambda>a b. fsqrt (foldl fadd (Finite 0)
                                  (map (\<lambda>(x, y). fmul (fsub x y) (fsub x y)) (zip a b))))\<rparr>"

text \<open>\<open>log2f\<close> belongs to the C library and is a parameter of the entropy.  For the runs on
  concrete inputs: the correctly rounded logarithm, with the special values of the C
  standard (\<open>log2f(1)\<close> is the positive zero in every conforming library).\<close>

definition log2f_cr :: "fval \<Rightarrow> fval" where
  "log2f_cr x = (case x of Finite r \<Rightarrow> (if r < 0 then NaN else if r = 0 then NInf
                                          else round32 (log 2 r))
                 | NegZero \<Rightarrow> NInf | PInf \<Rightarrow> PInf | NInf \<Rightarrow> NaN | NaN \<Rightarrow> NaN)"


section \<open>The k-means engines\<close>

text \<open>
  \<open>performPC_KMeans\<close> (on the reduced coordinates) and \<open>performFullK_MeansByClusters\<close> (on the
  raw coordinates) run the same \<open>do { ... } while (...)\<close> loop; they differ in the points
  (\<open>cArray\<close> or \<open>data\<close>) and in the distance of a point to a centroid: the Euclidean norm of the
  difference, or \<open>getDisimilarity\<close>, which is declared outside the clustering source and is
  a parameter here.  The OpenMP loops are modelled by their sequential meaning, rows and
  clusters taken in ascending order.  The seeds come from \<open>Initialization\<close> (outside the
  source) and are the starting \<open>clusterCenter\<close>, one row per cluster.
\<close>

record km_state =
  clusterCenter :: fmatrix
  moving :: fval
  tag :: nat
  storage :: "nat list"
  neighborVec :: "nat list list"
  recorder :: "nat list"
  centerTemp :: fmatrix

text \<open>
  The scan of the centroids for one row:
  \<^verbatim>\<open>float dist = FLT_MAX; int clusTemp;
  for (j = 0; j < Cluster; ++j) { temp = ...; if (temp < dist) { dist = temp; clusTemp = j; } }\<close>
  \<open>clusTemp\<close> stays undefined (\<open>None\<close>) when no centroid is nearer than \<open>FLT_MAX\<close>.
\<close>

fun nearest_loop :: "(nat \<Rightarrow> fval) \<Rightarrow> nat list \<Rightarrow> fval \<Rightarrow> nat option \<Rightarrow> nat option" where
  "nearest_loop temp_of [] dist' clusTemp = clusTemp"
| "nearest_loop temp_of (j # js) dist' clusTemp =
     (let temp = temp_of j
      in if flt temp dist' then nearest_loop temp_of js temp (Some j)
         else nearest_loop temp_of js dist' clusTemp)"

definition assign_row ::
  "eigen \<Rightarrow> (fval list \<Rightarrow> nat \<Rightarrow> fval) \<Rightarrow> fmatrix \<Rightarrow> nat \<Rightarrow> nat \<Rightarrow> km_state \<Rightarrow> error + km_state" where
  "assign_row E dis points Cluster i st =
     (case nearest_loop (\<lambda>j. dis (clusterCenter st ! j) i) [0..<Cluster] (Finite FLT_MAX) None of
        None \<Rightarrow> Inl Uninitialised
      | Some clusTemp \<Rightarrow>
          Inr (st\<lparr>storage := (storage st)[clusTemp := storage st ! clusTemp + 1],
                  neighborVec := (neighborVec st)[clusTemp := neighborVec st ! clusTemp @ [i]],
                  recorder := (recorder st)[i := clusTemp],
                  centerTemp := (centerTemp st)[clusTemp :=
                                   row_add E (centerTemp st ! clusTemp) (points ! i)]\<rparr>))"

fun assign_rows ::
  "eigen \<Rightarrow> (fval list \<Rightarrow> nat \<Rightarrow> fval) \<Rightarrow> fmatrix \<Rightarrow> nat \<Rightarrow> nat list \<Rightarrow> km_state \<Rightarrow> error + km_state" where
  "assign_rows E dis points Cluster [] st = Inr st"
| "assign_rows E dis points Cluster (i # rest) st =
     (case assign_row E dis points Cluster i st of
        Inl e \<Rightarrow> Inl e
      | Inr st' \<Rightarrow> assign_rows E dis points Cluster rest st')"

text \<open>
  The update of the centroids:
  \<^verbatim>\<open>for (i = 0; i < Cluster; ++i) if (storage[i] > 0) {
     centerTemp.row(i) /= storage[i];
     tempMoving = (centerTemp.row(i) - clusterCenter.row(i)).norm();
     clusterCenter.row(i) = centerTemp.row(i);
     if (moving < tempMoving) moving = tempMoving; }\<close>
\<close>

fun update_loop :: "eigen \<Rightarrow> nat list \<Rightarrow> km_state \<Rightarrow> km_state" where
  "update_loop E [] st = st"
| "update_loop E (i # rest) st =
     (if storage st ! i > 0 then
        let row = row_div E (centerTemp st ! i) (storage st ! i);
            tempMoving = row_dist E row (clusterCenter st ! i)
        in update_loop E rest
             (st\<lparr>centerTemp := (centerTemp st)[i := row],
                 clusterCenter := (clusterCenter st)[i := row],
                 moving := (if flt (moving st) tempMoving then tempMoving else moving st)\<rparr>)
      else update_loop E rest st)"

text \<open>One round of the loop body; \<open>Dim\<close> is the number of columns of the points.\<close>

definition kmeans_body ::
  "eigen \<Rightarrow> (fval list \<Rightarrow> nat \<Rightarrow> fval) \<Rightarrow> fmatrix \<Rightarrow> nat \<Rightarrow> nat \<Rightarrow> nat \<Rightarrow> km_state
     \<Rightarrow> error + km_state" where
  "kmeans_body E dis points Row Cluster Dim st =
     (case assign_rows E dis points Cluster [0..<Row]
             (st\<lparr>storage := replicate Cluster 0,
                 centerTemp := replicate Cluster (replicate Dim (Finite 0)),
                 neighborVec := replicate Cluster []\<rparr>) of
        Inl e \<Rightarrow> Inl e
      | Inr st1 \<Rightarrow>
          let st2 = update_loop E [0..<Cluster] (st1\<lparr>moving := Finite FLT_MIN\<rparr>)
          in Inr (st2\<lparr>tag := tag st2 + 1\<rparr>))"

text \<open>The loop condition
  \<^verbatim>\<open>while (abs(moving-before)/before >= 1.0e-2 && tag < 20 && moving > 0.01)\<close>
  The quotient is a \<open>float\<close>: the difference is rounded, and so is the quotient.\<close>

definition quotient :: "fval \<Rightarrow> fval \<Rightarrow> fval" where
  "quotient moving' before = fdiv (fabs (fsub moving' before)) before"

definition loop_continues :: "fval \<Rightarrow> km_state \<Rightarrow> bool" where
  "loop_continues before st \<longleftrightarrow>
     fle (Finite DBL_0_01) (quotient (moving st) before) \<and> tag st < 20
     \<and> flt (Finite DBL_0_01) (moving st)"

text \<open>
  The \<open>do ... while\<close> loop.  \<open>before\<close> is the \<open>moving\<close> of the state the round starts from
  (\<open>before = moving\<close> is the first statement of the body).  A round that reads the undefined
  \<open>clusTemp\<close> ends the run with the error.
\<close>

function kmeans_loop ::
  "eigen \<Rightarrow> (fval list \<Rightarrow> nat \<Rightarrow> fval) \<Rightarrow> fmatrix \<Rightarrow> nat \<Rightarrow> nat \<Rightarrow> nat \<Rightarrow> km_state
     \<Rightarrow> error + km_state" where
  "kmeans_loop E dis points Row Cluster Dim st =
     (case kmeans_body E dis points Row Cluster Dim st of
        Inl e \<Rightarrow> Inl e
      | Inr st' \<Rightarrow>
          if loop_continues (moving st) st' then kmeans_loop E dis points Row Cluster Dim st'
          else Inr st')"
  by pat_completeness auto
termination
proof (relation "measure (\<lambda>(E, dis, points, Row, Cluster, Dim, st). 20 - tag st)")
  show "wf (measure (\<lambda>(E, dis, points, Row, Cluster, Dim, st). 20 - tag st))" by simp
next
  fix E :: eigen and dis :: "fval list \<Rightarrow> nat \<Rightarrow> fval" and points :: fmatrix
    and Row Cluster Dim :: nat and st st' :: km_state
  assume body: "kmeans_body E dis points Row Cluster Dim st = Inr st'"
    and cont: "loop_continues (moving st) st'"
  have assign: "tag b = tag a" if "assign_rows E dis points Cluster rows a = Inr b"
    for rows a b
    using that
    by (induction rows arbitrary: a)
       (auto simp: assign_row_def split: sum.splits option.splits)
  have update: "tag (update_loop E rows a) = tag a" for rows a
    by (induction rows arbitrary: a) (simp_all add: Let_def)
  from body have "tag st' = tag st + 1"
    by (auto simp: kmeans_body_def Let_def update split: sum.splits dest!: assign)
  with cont show "((E, dis, points, Row, Cluster, Dim, st'), (E, dis, points, Row, Cluster, Dim, st))
      \<in> measure (\<lambda>(E, dis, points, Row, Cluster, Dim, st). 20 - tag st)"
    by (auto simp: loop_continues_def)
qed

declare kmeans_loop.simps [simp del]

text \<open>The state with which both functions enter the loop: \<open>moving = 1000\<close>, \<open>tag = 0\<close>,
  \<open>neighborVec\<close> of \<open>Cluster\<close> empty lists, \<open>recorder\<close> of \<open>Row\<close> zeros.  \<open>storage\<close> and
  \<open>centerTemp\<close> are reset at the start of every round.\<close>

definition km_init :: "fmatrix \<Rightarrow> nat \<Rightarrow> nat \<Rightarrow> km_state" where
  "km_init seeds Row Cluster =
     \<lparr>clusterCenter = seeds, moving = Finite 1000, tag = 0, storage = replicate Cluster 0,
      neighborVec = replicate Cluster [], recorder = replicate Row 0, centerTemp = []\<rparr>"

text \<open>The loop of \<open>performPC_KMeans\<close>, on \<open>cArray\<close> with
  \<open>(cArray.row(i) - clusterCenter.row(j)).norm()\<close>.\<close>

definition performPC_KMeans_loop ::
  "eigen \<Rightarrow> fmatrix \<Rightarrow> nat \<Rightarrow> nat \<Rightarrow> nat \<Rightarrow> fmatrix \<Rightarrow> error + km_state" where
  "performPC_KMeans_loop E cArray Row PC_Number Cluster seeds =
     kmeans_loop E (\<lambda>center i. row_dist E (cArray ! i) center) cArray Row Cluster PC_Number
       (km_init seeds Row Cluster)"

text \<open>The loop of \<open>performFullK_MeansByClusters\<close>, on \<open>data\<close> with \<open>getDisimilarity\<close>
  (the norm option and the prepared metric object are fixed inside the parameter).\<close>

definition performFullK_Means_loop ::
  "eigen \<Rightarrow> (fval list \<Rightarrow> nat \<Rightarrow> fval) \<Rightarrow> fmatrix \<Rightarrow> nat \<Rightarrow> nat \<Rightarrow> nat \<Rightarrow> fmatrix
     \<Rightarrow> error + km_state" where
  "performFullK_Means_loop E getDisimilarity data Row Column Cluster seeds =
     kmeans_loop E getDisimilarity data Row Cluster Column (km_init seeds Row Cluster)"

text \<open>The state after \<open>n\<close> rounds of the body, for speaking about the rounds of a run.\<close>

fun kmeans_rounds ::
  "eigen \<Rightarrow> (fval list \<Rightarrow> nat \<Rightarrow> fval) \<Rightarrow> fmatrix \<Rightarrow> nat \<Rightarrow> nat \<Rightarrow> nat \<Rightarrow> nat \<Rightarrow> km_state
     \<Rightarrow> error + km_state" where
  "kmeans_rounds E dis points Row Cluster Dim 0 st = Inr st"
| "kmeans_rounds E dis points Row Cluster Dim (Suc n) st =
     (case kmeans_rounds E dis points Row Cluster Dim n st of
        Inl e \<Rightarrow> Inl e
      | Inr st' \<Rightarrow> kmeans_body E dis points Row Cluster Dim st')"

text \<open>The three stopping triggers in the words of the specification, on real numbers:
  the relative change of the displacement is below \<open>0.01\<close>, or the round count has reached
  20, or the displacement is at most \<open>0.01\<close>.\<close>

definition stop_trigger :: "real \<Rightarrow> real \<Rightarrow> nat \<Rightarrow> bool" where
  "stop_trigger moving_prev moving_t t \<longleftrightarrow>
     \<bar>moving_t - moving_prev\<bar> / moving_prev < 1 / 100 \<or> t = 20 \<or> moving_t \<le> 1 / 100"

text \<open>
  The triggers as the program evaluates them: the quotient is the \<open>float\<close> quotient, the
  bound is the \<open>double\<close> \<open>0.01\<close>, and a quotient that is not a number ends the loop too
  (\<open>NaN >= 0.01\<close> is false).
\<close>

definition exit_trigger :: "fval \<Rightarrow> fval \<Rightarrow> nat \<Rightarrow> bool" where
  "exit_trigger moving_prev moving_t t \<longleftrightarrow>
     is_nan (quotient moving_t moving_prev)
     \<or> flt (quotient moving_t moving_prev) (Finite DBL_0_01)
     \<or> t = 20 \<or> fle moving_t (Finite DBL_0_01)"

text \<open>
  A run that ends in \<open>st\<close> exits at the first trigger: it took \<open>n = tag st\<close> rounds with
  \<open>1 \<le> n \<le> 20\<close>, and for every round \<open>m + 1 \<le> n\<close>, from the state \<open>a\<close> after \<open>m\<close> rounds to
  the state \<open>b\<close> after \<open>m + 1\<close>: the previous displacement is a number from \<open>FLT_MIN\<close> on or
  the positive infinity (never zero, never a NaN), the counter is \<open>m + 1\<close>, and a trigger
  holds exactly when the round is the last one.  \<open>rounds m\<close> is the state after \<open>m\<close>
  rounds.
\<close>

definition round_ok :: "(nat \<Rightarrow> error + km_state) \<Rightarrow> nat \<Rightarrow> nat \<Rightarrow> bool" where
  "round_ok rounds n m =
     (case rounds m of
        Inl e \<Rightarrow> False
      | Inr a \<Rightarrow>
          (case rounds (Suc m) of
             Inl e \<Rightarrow> False
           | Inr b \<Rightarrow> fle (Finite FLT_MIN) (moving a) \<and> tag b = Suc m
                      \<and> (exit_trigger (moving a) (moving b) (tag b) = (Suc m = n))))"

definition exits_at_first_trigger :: "(nat \<Rightarrow> error + km_state) \<Rightarrow> km_state \<Rightarrow> bool" where
  "exits_at_first_trigger rounds st \<longleftrightarrow>
     1 \<le> tag st \<and> tag st \<le> 20 \<and> rounds (tag st) = Inr st
     \<and> list_all (round_ok rounds (tag st)) [0..<tag st]"


section \<open>The cluster finaliser\<close>

text \<open>\<open>std::multimap<int,int>::insert\<close>: the entries stay ordered by key, and an entry goes
  behind the entries of the same key.\<close>

fun multimap_insert :: "nat \<times> nat \<Rightarrow> (nat \<times> nat) list \<Rightarrow> (nat \<times> nat) list" where
  "multimap_insert kv [] = [kv]"
| "multimap_insert kv (x # xs) =
     (if fst kv < fst x then kv # x # xs else x # multimap_insert kv xs)"

text \<open>
  \<^verbatim>\<open>float entropy = 0.0, probability;
  for (i = 0; i < Cluster; ++i) {
     groupMap.insert(std::pair<int,int>(storage[i], i));
     if (storage[i] > 0) { probability = float(storage[i]) / float(Row);
                           entropy += probability * log2f(probability); ++nonZero; } }\<close>
  (\<open>performPC_KMeans\<close> and \<open>perform_AHC\<close> have the same loop without the counter.)
\<close>

fun entropy_loop ::
  "(fval \<Rightarrow> fval) \<Rightarrow> nat list \<Rightarrow> nat list \<Rightarrow> nat \<Rightarrow> (nat \<times> nat) list \<times> fval \<times> nat
     \<Rightarrow> (nat \<times> nat) list \<times> fval \<times> nat" where
  "entropy_loop log2f [] storage' Row acc = acc"
| "entropy_loop log2f (i # rest) storage' Row (groupMap, entropy, nonZero) =
     (let groupMap' = multimap_insert (storage' ! i, i) groupMap
      in if storage' ! i > 0 then
           let probability = fdiv (float_of_int (storage' ! i)) (float_of_int Row)
           in entropy_loop log2f rest storage' Row
                (groupMap', fadd entropy (fmul probability (log2f probability)), nonZero + 1)
         else entropy_loop log2f rest storage' Row (groupMap', entropy, nonZero))"

text \<open>
  \<^verbatim>\<open>for (it = groupMap.begin(); it != groupMap.end(); ++it)
     if (it->first > 0) increasingOrder[it->second] = (groupNo++);\<close>
  \<open>increasingOrder\<close> is an uninitialised array: a partial map.
\<close>

fun order_loop :: "(nat \<times> nat) list \<Rightarrow> (nat \<rightharpoonup> nat) \<times> nat \<Rightarrow> (nat \<rightharpoonup> nat) \<times> nat" where
  "order_loop [] acc = acc"
| "order_loop (it # rest) (increasingOrder, groupNo) =
     (if fst it > 0 then order_loop rest (increasingOrder(snd it \<mapsto> groupNo), groupNo + 1)
      else order_loop rest (increasingOrder, groupNo))"





text \<open>
  \<^verbatim>\<open>for (i = 0; i < Row; ++i) { group[i] = increasingOrder[recorder[i]];
                                 totalNum[i] = storage[recorder[i]]; }\<close>
\<close>

definition set_group ::
  "(nat \<rightharpoonup> nat) \<Rightarrow> nat list \<Rightarrow> nat list \<Rightarrow> nat \<Rightarrow> error + nat list \<times> nat list" where
  "set_group increasingOrder storage' recorder' Row =
     (case those (map (\<lambda>i. increasingOrder (recorder' ! i)) [0..<Row]) of
        None \<Rightarrow> Inl Uninitialised
      | Some labels \<Rightarrow> Inr (labels, map (\<lambda>i. storage' ! (recorder' ! i)) [0..<Row]))"

text \<open>
  The choice of the closest and the furthest member of a cluster.  \<open>shortestIndex\<close> and
  \<open>furthestIndex\<close> are declared before the loop over the clusters and keep their value from
  one cluster to the next; \<open>shortest\<close> starts at \<open>FLT_MAX\<close> and \<open>farDist\<close> at \<open>FLT_MIN\<close> for
  every cluster.
\<close>

fun member_loop ::
  "(nat \<Rightarrow> fval) \<Rightarrow> nat list \<Rightarrow> fval \<times> fval \<times> nat \<times> nat \<Rightarrow> fval \<times> fval \<times> nat \<times> nat" where
  "member_loop toCenter_of [] acc = acc"
| "member_loop toCenter_of (tempIndex # rest) (shortest, farDist, shortestIndex, furthestIndex) =
     (let toCenter = toCenter_of tempIndex;
          nearer = (if flt toCenter shortest then (toCenter, tempIndex) else (shortest, shortestIndex));
          farther = (if flt farDist toCenter then (toCenter, tempIndex) else (farDist, furthestIndex))
      in member_loop toCenter_of rest (fst nearer, fst farther, snd nearer, snd farther))"

fun representative_loop ::
  "(fval list \<Rightarrow> nat \<Rightarrow> fval) \<Rightarrow> km_state \<Rightarrow> (nat \<rightharpoonup> nat) \<Rightarrow> nat list
     \<Rightarrow> (nat \<times> nat) \<times> (nat \<times> nat) list \<times> (nat \<times> nat) list
     \<Rightarrow> error + (nat \<times> nat) \<times> (nat \<times> nat) list \<times> (nat \<times> nat) list" where
  "representative_loop dis st increasingOrder [] acc = Inr acc"
| "representative_loop dis st increasingOrder (i # rest) ((shortestIndex, furthestIndex), closest, furthest) =
     (if storage st ! i > 0 then
        (let neighborTemp = neighborVec st ! i;
             members = map (\<lambda>j. neighborTemp ! j) [0..<storage st ! i];
             found = member_loop (\<lambda>tempIndex. dis (clusterCenter st ! i) tempIndex) members
                       (Finite FLT_MAX, Finite FLT_MIN, shortestIndex, furthestIndex);
             shortestIndex' = fst (snd (snd found));
             furthestIndex' = snd (snd (snd found))
         in case increasingOrder i of
              None \<Rightarrow> Inl Uninitialised
            | Some label \<Rightarrow>
                representative_loop dis st increasingOrder rest
                  ((shortestIndex', furthestIndex'),
                   closest @ [(shortestIndex', label)], furthest @ [(furthestIndex', label)]))
      else representative_loop dis st increasingOrder rest
             ((shortestIndex, furthestIndex), closest, furthest))"

text \<open>
  \<^verbatim>\<open>for (i = 0; i < Cluster; ++i) if (storage[i] > 0) {
     for (j = 0; j < Column; ++j) closeSubset.push_back(clusterCenter(i,j));
     massCenter.push_back(MeanLine(closeSubset, increasingOrder[i])); closeSubset.clear(); }\<close>
\<close>

fun massCenter_loop ::
  "km_state \<Rightarrow> (nat \<rightharpoonup> nat) \<Rightarrow> nat \<Rightarrow> nat list \<Rightarrow> (fval list \<times> nat) list
     \<Rightarrow> error + (fval list \<times> nat) list" where
  "massCenter_loop st increasingOrder Column [] massCenter = Inr massCenter"
| "massCenter_loop st increasingOrder Column (i # rest) massCenter =
     (if storage st ! i > 0 then
        (case increasingOrder i of
           None \<Rightarrow> Inl Uninitialised
         | Some label \<Rightarrow>
             massCenter_loop st increasingOrder Column rest
               (massCenter @ [(map (\<lambda>j. clusterCenter st ! i ! j) [0..<Column], label)]))
      else massCenter_loop st increasingOrder Column rest massCenter)"

text \<open>
  What \<open>performFullK_MeansByClusters\<close> does after the representatives and the mean centroids,
  as the list of its effects on the outside, in program order: the distance-matrix file
  \<open>../dataset/<normOption>\<close> (for a dataset that is not PBF: opened for reading, and either
  computed and written or read back), the Silhouette and the Validity evaluators, the
  entries appended to the time recorder, and the readme.
\<close>

datatype event =
    DeleteDistanceMatrix
  | OpenDistFile
  | ComputeDistanceMatrix
  | WriteDistFile
  | ReadDistFile
  | SilhouetteCompute
  | ValidityCompute
  | TimeRecord string
  | WriteReadme

definition evaluation_tail :: "bool \<Rightarrow> bool \<Rightarrow> event list" where
  "evaluation_tail isPBF distFileFails =
     (if \<not> isPBF then
        [DeleteDistanceMatrix, OpenDistFile]
        @ (if distFileFails then [ComputeDistanceMatrix, WriteDistFile] else [ReadDistFile])
      else [])
     @ [SilhouetteCompute, TimeRecord ''For norm '',
        TimeRecord ''Clustering evaluation computing takes: '',
        ValidityCompute, TimeRecord ''kmeans Validity measure is: '', WriteReadme]"

record km_result =
  group_labels :: "nat list"
  totalNum :: "nat list"
  closest :: "(nat \<times> nat) list"
  furthest :: "(nat \<times> nat) list"
  massCenter :: "(fval list \<times> nat) list"
  groupNo :: nat
  events :: "event list"

text \<open>
  \<open>performFullK_MeansByClusters\<close> from the seeds on: the loop, the entropy and the labels,
  the representatives, the mean centroids, then
  \<^verbatim>\<open>if (groupNo <= 1) return;\<close>
  and the evaluation.  The output vectors \<open>closest\<close>, \<open>furthest\<close> and \<open>massCenter\<close> are taken
  as empty on entry, \<open>group\<close> (the field \<open>group_labels\<close>) and \<open>totalNum\<close> as of \<open>Row\<close> entries.
\<close>

definition performFullK_MeansByClusters ::
  "eigen \<Rightarrow> (fval \<Rightarrow> fval) \<Rightarrow> (fval list \<Rightarrow> nat \<Rightarrow> fval) \<Rightarrow> fmatrix \<Rightarrow> nat \<Rightarrow> nat \<Rightarrow> nat
     \<Rightarrow> fmatrix \<Rightarrow> bool \<Rightarrow> bool \<Rightarrow> error + km_result" where
  "performFullK_MeansByClusters E log2f getDisimilarity data Row Column Cluster seeds isPBF
       distFileFails =
     (case performFullK_Means_loop E getDisimilarity data Row Column Cluster seeds of
        Inl e \<Rightarrow> Inl e
      | Inr st \<Rightarrow>
          (case entropy_loop log2f [0..<Cluster] (storage st) Row ([], Finite 0, 0) of
             (groupMap, entropy, nonZero) \<Rightarrow>
          (case order_loop groupMap (Map.empty, 0) of
             (increasingOrder, groupNo') \<Rightarrow>
          (case set_group increasingOrder (storage st) (recorder st) Row of
             Inl e \<Rightarrow> Inl e
           | Inr (group', totalNum') \<Rightarrow>
          (case representative_loop getDisimilarity st increasingOrder [0..<Cluster] ((0, 0), [], []) of
             Inl e \<Rightarrow> Inl e
           | Inr (indices, closest', furthest') \<Rightarrow>
          (case massCenter_loop st increasingOrder Column [0..<Cluster] [] of
             Inl e \<Rightarrow> Inl e
           | Inr massCenter' \<Rightarrow>
               Inr \<lparr>group_labels = group', totalNum = totalNum', closest = closest',
                    furthest = furthest', massCenter = massCenter', groupNo = groupNo',
                    events = (if groupNo' \<le> 1 then []
                              else evaluation_tail isPBF distFileFails)\<rparr>))))))"


section \<open>The hierarchical merger\<close>

text \<open>
  \<open>DistNode\<close> and \<open>AHC_node\<close> are declared in a header outside the source; their fields are
  the ones the source uses.  What the default constructor of \<open>AHC_node\<close> puts into \<open>index\<close>
  is not visible: it is the parameter \<open>dflt\<close> below.
\<close>

record DistNode =
  first :: nat
  second :: nat
  distance :: real

record AHC_node =
  index :: int
  element :: "nat list"

text \<open>
  \<open>std::unordered_map<int, AHC_node>\<close> as an association list with distinct keys.
  The iteration order of an \<open>unordered_map\<close> is unspecified; the model iterates in the
  order of insertion.  \<open>operator[]\<close> inserts a default node for a missing key,
  \<open>insert\<close> leaves a present key alone, \<open>erase\<close> removes the key.
\<close>

type_synonym node_map = "(nat \<times> AHC_node) list"

definition nm_index :: "nat \<Rightarrow> AHC_node \<Rightarrow> node_map \<Rightarrow> AHC_node \<times> node_map" where
  "nm_index k dnode m =
     (case map_of m k of Some v \<Rightarrow> (v, m) | None \<Rightarrow> (dnode, m @ [(k, dnode)]))"

definition nm_insert :: "nat \<Rightarrow> AHC_node \<Rightarrow> node_map \<Rightarrow> node_map" where
  "nm_insert k v m = (case map_of m k of Some old \<Rightarrow> m | None \<Rightarrow> m @ [(k, v)])"

definition nm_erase :: "nat \<Rightarrow> node_map \<Rightarrow> node_map" where
  "nm_erase k m = filter (\<lambda>kv. fst kv \<noteq> k) m"

text \<open>
  \<open>PCA_Cluster::getDistAtNodes\<close>:
  \<^verbatim>\<open>const int& m = firstList.size();  const int& n = secondList.size();
  assert(m!=0);  assert(n!=0);
  result = 0;
  for (int i = 0; i < m; ++i)
    for (int j = 0; j < n; ++j) { value = reduced_dist_matrix(i,j); result += value; }
  result /= m*n;\<close>
  The matrix is read at the loop counters \<open>(i, j)\<close>.
\<close>

definition mcols :: "matrix \<Rightarrow> nat" where
  "mcols M = (case M of [] \<Rightarrow> 0 | r # rs \<Rightarrow> length r)"

definition getDistAtNodes :: "nat list \<Rightarrow> nat list \<Rightarrow> matrix \<Rightarrow> error + real" where
  "getDistAtNodes firstList secondList reduced_dist_matrix =
     (let m = length firstList; n = length secondList
      in if m = 0 \<or> n = 0 then Inl AssertionFailed
         else if length reduced_dist_matrix < m \<or> mcols reduced_dist_matrix < n then Inl OutOfRange
         else if INT_MAX < m * n then Inl IntOverflow
         else Inr (sum_list (map (\<lambda>i. sum_list (map (\<lambda>j. reduced_dist_matrix ! i ! j) [0..<n]))
                                 [0..<m])
                   / real (m * n)))"

text \<open>Average linkage in the words of the specification: the mean, over all \<open>a\<close> of the
  first membership list and \<open>b\<close> of the second, of the entries \<open>distanceMatrix[a][b]\<close>.\<close>

definition average_linkage :: "nat list \<Rightarrow> nat list \<Rightarrow> matrix \<Rightarrow> real" where
  "average_linkage A B distanceMatrix =
     sum_list (map (\<lambda>a. sum_list (map (\<lambda>b. distanceMatrix ! a ! b) B)) A)
     / real (length A * length B)"

text \<open>
  \<open>PCA_Cluster::setValue\<close>: a vector of \<open>Row*(Row-1)/2\<close> entries, filled at \<open>tag = 0, 1, ...\<close>
  by the double loop over \<open>i < j\<close>, and \<open>assert(tag==dNodeVec.size())\<close>.
\<close>

definition setValue :: "matrix \<Rightarrow> nat \<Rightarrow> error + DistNode list" where
  "setValue reduced_dist_matrix Row =
     (if INT_MAX < Row * (Row - 1) then Inl IntOverflow
      else let filled = concat (map (\<lambda>i. map (\<lambda>j. \<lparr>first = i, second = j,
                                                     distance = reduced_dist_matrix ! i ! j\<rparr>)
                                              [i + 1..<Row])
                                    [0..<Row - 1])
           in if length filled \<noteq> Row * (Row - 1) div 2 then Inl AssertionFailed
              else Inr filled)"

text \<open>
  The running minimum of the merger: writing entry \<open>d\<close> at position \<open>current\<close> of \<open>tempVec\<close>,
  \<^verbatim>\<open>tempVec[current] = d;
  if (tempVec[current].distance < minDist) { target = current; minDist = tempVec[current].distance; }
  ++current;\<close>
  \<open>target\<close> is an \<open>int\<close> that starts at \<open>-1\<close>.
\<close>

definition push_node :: "DistNode \<Rightarrow> DistNode list \<times> int \<times> real \<Rightarrow> DistNode list \<times> int \<times> real" where
  "push_node d acc =
     (case acc of (tempVec, target, minDist) \<Rightarrow>
        if distance d < minDist then (tempVec @ [d], int (length tempVec), distance d)
        else (tempVec @ [d], target, minDist))"

text \<open>The first scan of \<open>hierarchicalMerging\<close> over the given \<open>dNodeVec\<close> is the same
  running minimum over all entries.\<close>

fun scan_loop :: "DistNode list \<Rightarrow> DistNode list \<times> int \<times> real \<Rightarrow> DistNode list \<times> int \<times> real" where
  "scan_loop [] acc = acc"
| "scan_loop (d # rest) acc = scan_loop rest (push_node d acc)"

text \<open>The pairs that touch neither merged node are copied.\<close>

fun copy_loop :: "DistNode \<Rightarrow> DistNode list \<Rightarrow> DistNode list \<times> int \<times> real \<Rightarrow> DistNode list \<times> int \<times> real" where
  "copy_loop p [] acc = acc"
| "copy_loop p (d # rest) acc =
     (if first d \<noteq> first p \<and> first d \<noteq> second p \<and> second d \<noteq> first p \<and> second d \<noteq> second p
      then copy_loop p rest (push_node d acc)
      else copy_loop p rest acc)"

text \<open>One new pair between the new node and every other live node.\<close>

fun link_loop ::
  "matrix \<Rightarrow> AHC_node \<Rightarrow> node_map \<Rightarrow> DistNode list \<times> int \<times> real \<Rightarrow> error + DistNode list \<times> int \<times> real" where
  "link_loop D newNode [] acc = Inr acc"
| "link_loop D newNode (it # rest) acc =
     (if int (fst it) \<noteq> index newNode then
        (case getDistAtNodes (element newNode) (element (snd it)) D of
           Inl e \<Rightarrow> Inl e
         | Inr v \<Rightarrow>
             link_loop D newNode rest
               (push_node \<lparr>first = fst it, second = nat (index newNode), distance = v\<rparr> acc))
      else link_loop D newNode rest acc)"

record ahc_state =
  nodeMap :: node_map
  dNodeVec :: "DistNode list"
  poped :: DistNode
  new_index :: nat

text \<open>
  The body of the \<open>do ... while\<close> loop of \<open>hierarchicalMerging\<close>; \<open>new_index\<close> is the local
  \<open>index\<close>.  \<open>rebuild_pairs\<close> is the body up to the end of its second loop: the merge of the
  two nodes of \<open>poped\<close> in \<open>nodeMap\<close> and the entries written to \<open>tempVec\<close>, with the running
  minimum.  \<open>tempVec\<close> is allocated with \<open>currentNumber*(currentNumber-1)/2\<close> entries: a write
  behind its end and the read \<open>tempVec[target]\<close> with \<open>target = -1\<close> are out of range.
  The assertions are taken as enabled.
\<close>

definition rebuild_pairs ::
  "int \<Rightarrow> matrix \<Rightarrow> ahc_state \<Rightarrow> error + node_map \<times> DistNode list \<times> int \<times> real" where
  "rebuild_pairs dflt D s =
     (let dnode = \<lparr>index = dflt, element = []\<rparr>;
          (n1, m1) = nm_index (first (poped s)) dnode (nodeMap s);
          (n2, m2) = nm_index (second (poped s)) dnode m1;
          newNode = \<lparr>index = int (new_index s), element = element n1 @ element n2\<rparr>;
          m3 = nm_insert (new_index s) newNode m2;
          m4 = nm_erase (second (poped s)) (nm_erase (first (poped s)) m3);
          currentNumber = length m4
      in if INT_MAX < currentNumber * (currentNumber - 1) then Inl IntOverflow
         else case link_loop D newNode m4 (copy_loop (poped s) (dNodeVec s) ([], - 1, FLT_MAX)) of
                Inl e \<Rightarrow> Inl e
              | Inr acc \<Rightarrow> Inr (m4, acc))"

definition merge_step :: "int \<Rightarrow> matrix \<Rightarrow> ahc_state \<Rightarrow> error + ahc_state" where
  "merge_step dflt D s =
     (case rebuild_pairs dflt D s of
        Inl e \<Rightarrow> Inl e
      | Inr (m4, tempVec, target, minDist) \<Rightarrow>
          let currentNumber = length m4
          in if currentNumber * (currentNumber - 1) div 2 < length tempVec then Inl OutOfRange
             else if target < 0 then Inl OutOfRange
             else if length tempVec \<noteq> currentNumber * (currentNumber - 1) div 2
                  then Inl AssertionFailed
             else Inr \<lparr>nodeMap = m4, dNodeVec = tempVec, poped = tempVec ! nat target,
                      new_index = new_index s + 1\<rparr>)"

text \<open>
  \<^verbatim>\<open>do { ... } while (nodeMap.size() != numberOfClusters);\<close>
  The body runs before the test.  \<open>None\<close> is a loop that does not end.
\<close>

partial_function (option) merge_loop :: "int \<Rightarrow> matrix \<Rightarrow> nat \<Rightarrow> ahc_state \<Rightarrow> (error + ahc_state) option" where
  "merge_loop dflt D numberOfClusters s =
     (case merge_step dflt D s of
        Inl e \<Rightarrow> Some (Inl e)
      | Inr s' \<Rightarrow>
          if length (nodeMap s') \<noteq> numberOfClusters then merge_loop dflt D numberOfClusters s'
          else Some (Inr s'))"

text \<open>The state in which \<open>hierarchicalMerging\<close> enters the loop: one node per row, the pair of
  least distance in \<open>poped\<close>, \<open>index = Row\<close>.\<close>

definition ahc_init :: "int \<Rightarrow> nat \<Rightarrow> DistNode list \<Rightarrow> error + ahc_state" where
  "ahc_init dflt Row dNodeVec0 =
     (case scan_loop dNodeVec0 ([], - 1, FLT_MAX) of
        (scanned, target, minDist) \<Rightarrow>
          if target < 0 then Inl OutOfRange
          else Inr \<lparr>nodeMap = map (\<lambda>i. (i, \<lparr>index = dflt, element = [i]\<rparr>)) [0..<Row],
                   dNodeVec = dNodeVec0, poped = dNodeVec0 ! nat target, new_index = Row\<rparr>)"

text \<open>The final \<open>std::sort\<close> by membership size, then by \<open>index\<close> (an insertion sort here; the
  order that \<open>std::sort\<close> gives to nodes that compare equal is unspecified).\<close>

definition node_less :: "AHC_node \<Rightarrow> AHC_node \<Rightarrow> bool" where
  "node_less e1 e2 \<longleftrightarrow>
     length (element e1) < length (element e2)
     \<or> (length (element e1) = length (element e2) \<and> index e1 < index e2)"

fun node_insort :: "AHC_node \<Rightarrow> AHC_node list \<Rightarrow> AHC_node list" where
  "node_insort x [] = [x]"
| "node_insort x (y # ys) = (if node_less y x then y # node_insort x ys else x # y # ys)"

definition hierarchicalMerging ::
  "int \<Rightarrow> matrix \<Rightarrow> nat \<Rightarrow> nat \<Rightarrow> DistNode list \<Rightarrow> (error + AHC_node list) option" where
  "hierarchicalMerging dflt D Row numberOfClusters dNodeVec0 =
     (case ahc_init dflt Row dNodeVec0 of
        Inl e \<Rightarrow> Some (Inl e)
      | Inr s0 \<Rightarrow>
          (case merge_loop dflt D numberOfClusters s0 of
             None \<Rightarrow> None
           | Some (Inl e) \<Rightarrow> Some (Inl e)
           | Some (Inr s) \<Rightarrow> Some (Inr (foldr node_insort (map snd (nodeMap s)) []))))"

text \<open>The states of a run of the merger: the entry state and every state after a round.\<close>

inductive ahc_reach :: "int \<Rightarrow> matrix \<Rightarrow> nat \<Rightarrow> DistNode list \<Rightarrow> ahc_state \<Rightarrow> bool"
  for dflt D Row dNodeVec0 where
  reach_init: "ahc_init dflt Row dNodeVec0 = Inr s \<Longrightarrow> ahc_reach dflt D Row dNodeVec0 s"
| reach_step: "ahc_reach dflt D Row dNodeVec0 s \<Longrightarrow> merge_step dflt D s = Inr s'
     \<Longrightarrow> ahc_reach dflt D Row dNodeVec0 s'"

text \<open>
  \<open>PCA_Cluster::setLabel\<close> fills \<open>neighborVec\<close>, \<open>storage\<close> and \<open>recorder\<close> (each of \<open>Cluster\<close> or
  \<open>Row\<close> entries) from the sorted nodes; a node behind position \<open>Cluster\<close> is a write out of
  range.
\<close>

fun label_loop :: "nat list \<Rightarrow> nat \<Rightarrow> nat list \<Rightarrow> nat list" where
  "label_loop [] groupID recorder' = recorder'"
| "label_loop (e # rest) groupID recorder' = label_loop rest groupID (recorder'[e := groupID])"

fun setLabel_loop ::
  "AHC_node list \<Rightarrow> nat \<Rightarrow> nat list list \<times> nat list \<times> nat list \<Rightarrow> error + nat list list \<times> nat list \<times> nat list" where
  "setLabel_loop [] groupID acc = Inr acc"
| "setLabel_loop (node # rest) groupID (neighborVec', storage', recorder') =
     (if length neighborVec' \<le> groupID then Inl OutOfRange
      else setLabel_loop rest (groupID + 1)
             (neighborVec'[groupID := element node],
              storage'[groupID := length (element node)],
              label_loop (element node) groupID recorder'))"

definition setLabel :: "AHC_node list \<Rightarrow> nat \<Rightarrow> nat \<Rightarrow> error + nat list list \<times> nat list \<times> nat list" where
  "setLabel nodeVec Row Cluster =
     setLabel_loop nodeVec 0 (replicate Cluster [], replicate Cluster 0, replicate Row 0)"

text \<open>The clustering part of \<open>perform_AHC\<close>: the distance matrix of the reduced coordinates,
  \<open>setValue\<close>, \<open>hierarchicalMerging\<close>, \<open>setLabel\<close>.\<close>

definition reduced_dist_matrix_of :: "matrix \<Rightarrow> nat \<Rightarrow> matrix" where
  "reduced_dist_matrix_of cArray Row =
     map (\<lambda>i. map (\<lambda>j. if i = j then 0 else norm_f (vsub (cArray ! i) (cArray ! j))) [0..<Row])
         [0..<Row]"

definition perform_AHC_clusters ::
  "int \<Rightarrow> matrix \<Rightarrow> nat \<Rightarrow> nat \<Rightarrow> (error + nat list list \<times> nat list \<times> nat list) option" where
  "perform_AHC_clusters dflt cArray Row Cluster =
     (let D = reduced_dist_matrix_of cArray Row
      in case setValue D Row of
           Inl e \<Rightarrow> Some (Inl e)
         | Inr dNodeVec0 \<Rightarrow>
             (case hierarchicalMerging dflt D Row Cluster dNodeVec0 of
                None \<Rightarrow> None
              | Some (Inl e) \<Rightarrow> Some (Inl e)
              | Some (Inr nodeVec) \<Rightarrow> Some (setLabel nodeVec Row Cluster)))"


section \<open>Partitions and candidate pairs\<close>

text \<open>Membership lists partition \<open>{0,...,Row-1}\<close>: no index occurs twice in them, and the
  indices that occur are those below \<open>Row\<close>.\<close>

definition is_partition :: "nat \<Rightarrow> nat list list \<Rightarrow> bool" where
  "is_partition Row members \<longleftrightarrow>
     distinct (concat members) \<and> set (concat members) = {0..<Row}"

definition live_elements :: "ahc_state \<Rightarrow> nat list list" where
  "live_elements s = map (\<lambda>kv. element (snd kv)) (nodeMap s)"

text \<open>The candidate pairs hold one entry per unordered pair of live nodes: the unordered
  pairs of the entries are pairwise different, and they are the two-element sets of keys
  of the node map.\<close>

definition pair_of :: "DistNode \<Rightarrow> nat set" where
  "pair_of d = {first d, second d}"

definition live_pairs :: "node_map \<Rightarrow> nat set set" where
  "live_pairs m = {P. P \<subseteq> fst ` set m \<and> card P = 2}"

definition one_entry_per_pair :: "node_map \<Rightarrow> DistNode list \<Rightarrow> bool" where
  "one_entry_per_pair m dv \<longleftrightarrow>
     distinct (map pair_of dv) \<and> set (map pair_of dv) = live_pairs m"

text \<open>An entry touches neither node of the merged pair \<open>p\<close>.\<close>

definition unrelated :: "DistNode \<Rightarrow> DistNode \<Rightarrow> bool" where
  "unrelated p d \<longleftrightarrow>
     first d \<noteq> first p \<and> first d \<noteq> second p \<and> second d \<noteq> first p \<and> second d \<noteq> second p"







definition track_ok :: "DistNode list \<times> int \<times> real \<Rightarrow> bool" where
  "track_ok acc \<longleftrightarrow>
     fst (snd acc) = - 1 \<or> (0 \<le> fst (snd acc) \<and> nat (fst (snd acc)) < length (fst acc))"

text \<open>A distance matrix of \<open>Row\<close> rows and columns whose entries are finite floats, that
  is, below \<open>FLT_MAX\<close>.\<close>

definition finite_distances :: "nat \<Rightarrow> matrix \<Rightarrow> bool" where
  "finite_distances Row D \<longleftrightarrow>
     length D = Row \<and> list_all (\<lambda>row. length row = Row \<and> list_all (\<lambda>x. x < FLT_MAX) row) D"

text \<open>With entries below \<open>FLT_MAX\<close> the running minimum is found as soon as one entry is
  written.\<close>

definition pushed_ok :: "DistNode list \<times> int \<times> real \<Rightarrow> bool" where
  "pushed_ok acc \<longleftrightarrow>
     list_all (\<lambda>d. distance d < FLT_MAX) (fst acc)
     \<and> ((fst acc = [] \<and> fst (snd acc) = - 1 \<and> snd (snd acc) = FLT_MAX)
        \<or> (fst acc \<noteq> [] \<and> 0 \<le> fst (snd acc)))"

text \<open>The invariant of the merger's loop, for the proofs.\<close>

definition ahc_inv :: "nat \<Rightarrow> ahc_state \<Rightarrow> bool" where
  "ahc_inv Row s \<longleftrightarrow>
     distinct (map fst (nodeMap s))
     \<and> mset (concat (live_elements s)) = mset [0..<Row]
     \<and> list_all (\<lambda>kv. element (snd kv) \<noteq> []) (nodeMap s)
     \<and> list_all (\<lambda>kv. fst kv < new_index s) (nodeMap s)
     \<and> one_entry_per_pair (nodeMap s) (dNodeVec s)
     \<and> poped s \<in> set (dNodeVec s)
     \<and> length (nodeMap s) \<le> Row
     \<and> Row * (Row - 1) \<le> INT_MAX"


section \<open>Properties of the dimensionality reduction\<close>

lemma pc_loop_upt:
  "pc_loop coefficient r threshold s [a..<b] = Inr k \<Longrightarrow> s \<le> threshold \<Longrightarrow>
     a \<le> k \<and> k < b \<and> k < r
     \<and> s + (\<Sum>i = a..<k. squaredNorm (mcol coefficient i)) \<le> threshold
     \<and> threshold < s + (\<Sum>i = a..<Suc k. squaredNorm (mcol coefficient i))"
proof (induction "b - a" arbitrary: a s)
  case 0
  then show ?case by simp
next
  case (Suc n)
  then have ab: "a < b" by simp
  then have l: "[a..<b] = a # [Suc a..<b]" by (simp add: upt_conv_Cons)
  let ?s' = "s + squaredNorm (mcol coefficient a)"
  from Suc.prems l have ra: "a < r" by (auto split: if_splits)
  show ?case
  proof (cases "?s' > threshold")
    case True
    with Suc.prems l ra have "k = a" by (simp add: Let_def)
    with True ab ra Suc.prems(2) show ?thesis by simp
  next
    case False
    with Suc.prems l ra have rec: "pc_loop coefficient r threshold ?s' [Suc a..<b] = Inr k"
      by (simp add: Let_def)
    from Suc.hyps(2) have "n = b - Suc a" by simp
    from False have "?s' \<le> threshold" by simp
    from Suc.hyps(1)[OF \<open>n = b - Suc a\<close> rec this] have ih: "Suc a \<le> k" "k < b" "k < r"
      "?s' + (\<Sum>i = Suc a..<k. squaredNorm (mcol coefficient i)) \<le> threshold"
      "threshold < ?s' + (\<Sum>i = Suc a..<Suc k. squaredNorm (mcol coefficient i))" by auto
    from ih(1) have "a < k" by simp
    then have e1: "(\<Sum>i = a..<k. squaredNorm (mcol coefficient i)) =
        squaredNorm (mcol coefficient a) + (\<Sum>i = Suc a..<k. squaredNorm (mcol coefficient i))"
      by (simp add: sum.atLeast_Suc_lessThan)
    from \<open>a < k\<close> have e2: "(\<Sum>i = a..<Suc k. squaredNorm (mcol coefficient i)) =
        squaredNorm (mcol coefficient a) + (\<Sum>i = Suc a..<Suc k. squaredNorm (mcol coefficient i))"
      by (simp add: sum.atLeast_Suc_lessThan)
    from ih e1 e2 show ?thesis by (simp add: add.assoc)
  qed
qed

text \<open>
  What the selection does on every input: the chosen \<open>PC_Number = k\<close> is the index of the
  direction at which the running sum first exceeds the threshold.  The first \<open>k\<close> directions
  stay at or below the threshold; it takes \<open>k + 1\<close> directions to exceed it.
\<close>

lemma choose_PC_Number_boundary:
  assumes "choose_PC_Number coefficient r Column = Inr k"
  shows "k < Column \<and> k < r
       \<and> cumulative_energy coefficient k \<le> TOR_1 * msquaredNorm coefficient
       \<and> TOR_1 * msquaredNorm coefficient < cumulative_energy coefficient (Suc k)"
proof -
  have "0 \<le> msquaredNorm coefficient"
    by (auto simp: msquaredNorm_def squaredNorm_def intro!: sum_list_nonneg)
  then have "0 \<le> TOR_1 * msquaredNorm coefficient" by (simp add: TOR_1_def)
  from pc_loop_upt[of coefficient r "TOR_1 * msquaredNorm coefficient" 0 0 Column k, OF _ this] assms
  show ?thesis
    by (simp add: choose_PC_Number_def cumulative_energy_def atLeast0LessThan)
qed

lemmas svd_eval = performSVD_def choose_PC_Number_def centered_def mat_mul_def
  meanTrajectory_def mean_f_def mcol_def vsub_def msquaredNorm_def squaredNorm_def TOR_1_def
  cumulative_energy_def

text \<open>
  C2.  The claim: the energy of the first \<open>PC_Number\<close> directions exceeds \<open>0.999\<close> of the total
  and that of the first \<open>PC_Number - 1\<close> does not.  On the four points \<open>(3,0), (-3,0), (0,1),
  (0,-1)\<close> (already centred, \<open>V\<close> the identity, energies 18 and 2) the threshold is \<open>19.98\<close>,
  the loop breaks at \<open>i = 1\<close> and sets \<open>PC_Number = 1\<close>: the energy of the first \<open>PC_Number\<close>
  directions is 18, below the threshold, and only one of the two columns is kept.
\<close>

theorem C2_PC_Number_is_breaking_index:
  "performSVD [[3, 0], [- 3, 0], [0, 1], [0, - 1]] 2 [[1, 0], [0, 1]] 2
     = Inr ([[3], [- 3], [0], [0]], 1)
   \<and> cumulative_energy (mat_mul (centered [[3, 0], [- 3, 0], [0, 1], [0, - 1]] 2) [[1, 0], [0, 1]] 2) 1
     = 18
   \<and> TOR_1 * msquaredNorm (mat_mul (centered [[3, 0], [- 3, 0], [0, 1], [0, - 1]] 2) [[1, 0], [0, 1]] 2)
     = 1998 / 100"
  by (simp add: svd_eval eval_nat_numeral upt_rec)

lemma pc_loop_zero:
  "\<forall>i\<in>set rest. i < r \<longrightarrow> squaredNorm (mcol coefficient i) = 0 \<Longrightarrow>
     pc_loop coefficient r 0 0 rest = Inl Uninitialised
     \<or> pc_loop coefficient r 0 0 rest = Inl OutOfRange"
  by (induction rest) (auto simp: Let_def)

lemma centered_all_equal:
  assumes "data \<noteq> []" "\<forall>row\<in>set data. row = v" "length v = Column"
  shows "centered data Column = replicate (length data) (replicate Column 0)"
proof -
  have n: "0 < length data" using assms(1) by simp
  have d: "data = replicate (length data) v" using assms(2)
    by (metis replicate_length_same)
  have m: "meanTrajectory data Column = v"
  proof (rule nth_equalityI)
    show "length (meanTrajectory data Column) = length v" by (simp add: meanTrajectory_def assms)
  next
    fix i assume "i < length (meanTrajectory data Column)"
    then have i: "i < Column" by (simp add: meanTrajectory_def)
    have "mcol data i = replicate (length data) (v ! i)"
      by (subst d) (simp add: mcol_def)
    then have "mean_f (mcol data i) = v ! i" using n
      by (simp add: mean_f_def sum_list_replicate)
    then show "meanTrajectory data Column ! i = v ! i" using i by (simp add: meanTrajectory_def)
  qed
  have z: "vsub v v = replicate Column 0"
    using assms(3) by (auto simp: vsub_def intro!: nth_equalityI)
  have "map (\<lambda>row. vsub row v) data = map (\<lambda>row. replicate Column 0) data"
    using assms(2) z by (intro map_cong) auto
  then show ?thesis
    by (simp add: centered_def m map_replicate_const)
qed

lemma sum_list_zero_products: "sum_list (map (\<lambda>(x, y). x * y) (zip (replicate n (0::real)) ys)) = 0"
proof -
  have "\<forall>p\<in>set (zip (replicate n (0::real)) ys). (case p of (x, y) \<Rightarrow> x * y) = 0"
    by (auto dest: set_zip_leftD)
  then show ?thesis by (simp cong: map_cong)
qed

text \<open>
  On a dataset whose rows are all equal the centred matrix is zero, the threshold is zero
  and no running sum exceeds it: the loop ends without the assignment to \<open>PC_Number\<close>
  (or, with fewer singular vectors than columns, reads a column that is not there).
\<close>

lemma performSVD_all_equal:
  assumes "data \<noteq> []" "\<forall>row\<in>set data. row = v" "length v = Column"
  shows "performSVD data Column SingVec r = Inl Uninitialised
       \<or> performSVD data Column SingVec r = Inl OutOfRange"
proof -
  let ?c = "mat_mul (centered data Column) SingVec r"
  have c: "?c = replicate (length data) (replicate r 0)"
    by (simp add: centered_all_equal[OF assms] mat_mul_def sum_list_zero_products
        map_replicate_const)
  have col: "squaredNorm (mcol ?c i) = 0" if "i < r" for i
    using that by (simp add: c mcol_def squaredNorm_def sum_list_replicate)
  have tot: "msquaredNorm ?c = 0"
    by (simp add: c msquaredNorm_def squaredNorm_def sum_list_replicate)
  have "pc_loop ?c r 0 0 [0..<Column] = Inl Uninitialised
      \<or> pc_loop ?c r 0 0 [0..<Column] = Inl OutOfRange"
    by (rule pc_loop_zero) (simp add: col)
  then show ?thesis
    by (auto simp: performSVD_def choose_PC_Number_def tot Let_def)
qed

text \<open>
  C7.  The claim: on a dataset whose rows are all equal \<open>performSVD\<close> returns with
  \<open>PC_Number\<close> set to 0 or 1.  On the two equal rows \<open>(1, 2)\<close> the loop never breaks and
  \<open>PC_Number\<close> is not set at all.
\<close>

theorem C7_all_equal_leaves_PC_Number_unset:
  "performSVD [[1, 2], [1, 2]] 2 [[1, 0], [0, 1]] 2 = Inl Uninitialised"
  by (simp add: svd_eval eval_nat_numeral upt_rec)



section \<open>The merger on three points of a line\<close>

text \<open>
  The points 0, 1 and 3 of a line have the distance matrix \<open>[[0,1,3],[1,0,2],[3,2,0]]\<close>.
  The run of the merger on it is evaluated round by round.
\<close>

lemmas ahc_eval = getDistAtNodes_def mcols_def INT_MAX_def setValue_def ahc_init_def
  push_node_def FLT_MAX_def merge_step_def rebuild_pairs_def nm_index_def nm_insert_def nm_erase_def Let_def

lemma line3_init:
  "setValue [[0, 1, 3], [1, 0, 2], [3, 2, 0]] 3
     = Inr [\<lparr>first = 0, second = 1, distance = 1\<rparr>, \<lparr>first = 0, second = 2, distance = 3\<rparr>,
            \<lparr>first = 1, second = 2, distance = 2\<rparr>]
   \<and> ahc_init dflt 3 [\<lparr>first = 0, second = 1, distance = 1\<rparr>, \<lparr>first = 0, second = 2, distance = 3\<rparr>,
                      \<lparr>first = 1, second = 2, distance = 2\<rparr>]
     = Inr \<lparr>nodeMap = [(0, \<lparr>index = dflt, element = [0]\<rparr>), (1, \<lparr>index = dflt, element = [1]\<rparr>),
                       (2, \<lparr>index = dflt, element = [2]\<rparr>)],
            dNodeVec = [\<lparr>first = 0, second = 1, distance = 1\<rparr>, \<lparr>first = 0, second = 2, distance = 3\<rparr>,
                        \<lparr>first = 1, second = 2, distance = 2\<rparr>],
            poped = \<lparr>first = 0, second = 1, distance = 1\<rparr>, new_index = 3\<rparr>"
  by (simp add: ahc_eval upt_rec)

lemma line3_round1:
  "merge_step dflt [[0, 1, 3], [1, 0, 2], [3, 2, 0]]
        \<lparr>nodeMap = [(0, \<lparr>index = dflt, element = [0]\<rparr>), (1, \<lparr>index = dflt, element = [1]\<rparr>),
                    (2, \<lparr>index = dflt, element = [2]\<rparr>)],
         dNodeVec = [\<lparr>first = 0, second = 1, distance = 1\<rparr>, \<lparr>first = 0, second = 2, distance = 3\<rparr>,
                     \<lparr>first = 1, second = 2, distance = 2\<rparr>],
         poped = \<lparr>first = 0, second = 1, distance = 1\<rparr>, new_index = 3\<rparr>
     = Inr \<lparr>nodeMap = [(2, \<lparr>index = dflt, element = [2]\<rparr>), (3, \<lparr>index = 3, element = [0, 1]\<rparr>)],
            dNodeVec = [\<lparr>first = 2, second = 3, distance = 1 / 2\<rparr>],
            poped = \<lparr>first = 2, second = 3, distance = 1 / 2\<rparr>, new_index = 4\<rparr>"
  by (simp add: ahc_eval upt_rec)

lemma line3_round2:
  "merge_step dflt [[0, 1, 3], [1, 0, 2], [3, 2, 0]]
        \<lparr>nodeMap = [(2, \<lparr>index = dflt, element = [2]\<rparr>), (3, \<lparr>index = 3, element = [0, 1]\<rparr>)],
         dNodeVec = [\<lparr>first = 2, second = 3, distance = 1 / 2\<rparr>],
         poped = \<lparr>first = 2, second = 3, distance = 1 / 2\<rparr>, new_index = 4\<rparr>
     = Inl OutOfRange"
  by (simp add: ahc_eval upt_rec)

text \<open>
  C1.  The claim: the linkage distance of a candidate pair, computed by \<open>getDistAtNodes\<close>, is
  the mean of \<open>distanceMatrix[a][b]\<close> over the members \<open>a\<close>, \<open>b\<close> of the two nodes.
  \<open>getDistAtNodes\<close> never reads its two lists but for their sizes: it averages the block
  \<open>(0..m-1) x (0..n-1)\<close> of the matrix.  On the three points, after nodes 0 and 1 are merged
  into node 3, the new pair of node 2 and node 3 gets \<open>(D(0,0) + D(1,0)) / 2 = 1/2\<close>, where
  the mean of the members' distances is \<open>(D(0,2) + D(1,2)) / 2 = 5/2\<close>.
\<close>

theorem C1_linkage_reads_loop_counters:
  "getDistAtNodes [0, 1] [2] [[0, 1, 3], [1, 0, 2], [3, 2, 0]] = Inr (1 / 2)
   \<and> average_linkage [0, 1] [2] [[0, 1, 3], [1, 0, 2], [3, 2, 0]] = 5 / 2
   \<and> merge_step dflt [[0, 1, 3], [1, 0, 2], [3, 2, 0]]
        \<lparr>nodeMap = [(0, \<lparr>index = dflt, element = [0]\<rparr>), (1, \<lparr>index = dflt, element = [1]\<rparr>),
                    (2, \<lparr>index = dflt, element = [2]\<rparr>)],
         dNodeVec = [\<lparr>first = 0, second = 1, distance = 1\<rparr>, \<lparr>first = 0, second = 2, distance = 3\<rparr>,
                     \<lparr>first = 1, second = 2, distance = 2\<rparr>],
         poped = \<lparr>first = 0, second = 1, distance = 1\<rparr>, new_index = 3\<rparr>
     = Inr \<lparr>nodeMap = [(2, \<lparr>index = dflt, element = [2]\<rparr>), (3, \<lparr>index = 3, element = [0, 1]\<rparr>)],
            dNodeVec = [\<lparr>first = 2, second = 3, distance = 1 / 2\<rparr>],
            poped = \<lparr>first = 2, second = 3, distance = 1 / 2\<rparr>, new_index = 4\<rparr>"
  by (simp add: ahc_eval average_linkage_def upt_rec)

text \<open>
  C6.  The claim: called with a target equal to the number of live nodes, the merger stops
  at once without a merge, and in general it ends with exactly the target number of live
  nodes.  The loop is a \<open>do ... while\<close>: the body runs before the first test.  On the three
  points with target 3 the first round merges nodes 0 and 1 (two live nodes are left,
  which is not 3), the second round merges the last two, and with no candidate pair left
  \<open>tempVec[target]\<close> is read at \<open>target = -1\<close>.
\<close>

theorem C6_target_equal_to_Row_merges:
  "length (nodeMap \<lparr>nodeMap = [(0, \<lparr>index = dflt, element = [0]\<rparr>), (1, \<lparr>index = dflt, element = [1]\<rparr>),
                               (2, \<lparr>index = dflt, element = [2]\<rparr>)],
                    dNodeVec = [\<lparr>first = 0, second = 1, distance = 1\<rparr>,
                                \<lparr>first = 0, second = 2, distance = 3\<rparr>,
                                \<lparr>first = 1, second = 2, distance = 2\<rparr>],
                    poped = \<lparr>first = 0, second = 1, distance = 1\<rparr>, new_index = 3\<rparr>) = 3
   \<and> hierarchicalMerging dflt [[0, 1, 3], [1, 0, 2], [3, 2, 0]] 3 3
        [\<lparr>first = 0, second = 1, distance = 1\<rparr>, \<lparr>first = 0, second = 2, distance = 3\<rparr>,
         \<lparr>first = 1, second = 2, distance = 2\<rparr>]
     = Some (Inl OutOfRange)"
  unfolding hierarchicalMerging_def
  apply (simp add: line3_init del: One_nat_def)
  apply (subst merge_loop.simps)
  apply (simp add: line3_round1 del: One_nat_def)
  apply (subst merge_loop.simps)
  apply (simp add: line3_round2 del: One_nat_def)
  done



section \<open>Properties of single precision\<close>

lemma exp_above_step: "2 \<le> a \<Longrightarrow> e < 128 \<Longrightarrow> exp_above a e = exp_above (a / 2) (e + 1)"
  by (subst exp_above.simps) simp

lemma exp_above_stop: "\<not> (2 \<le> a \<and> e < 128) \<Longrightarrow> exp_above a e = e"
  by (subst exp_above.simps) auto

lemma exp_below_step: "a < 1 \<Longrightarrow> - 126 < e \<Longrightarrow> exp_below a e = exp_below (a * 2) (e - 1)"
  by (subst exp_below.simps) simp

lemma exp_below_stop: "\<not> (a < 1 \<and> - 126 < e) \<Longrightarrow> exp_below a e = e"
  by (subst exp_below.simps) auto

lemmas f32_eval = round32_def quantum_def pack_def exponent32_def exp_above_step exp_above_stop
  exp_below_step exp_below_stop pow2_def round_even_def signed_inf_def signed_zero_def

lemmas fop_eval = fadd_def fsub_def fmul_def fdiv_def fneg_def fabs_def flt_def fle_def
  is_nan_def is_inf_def is_zero_def neg_sign_def val_def float_of_int_def fsqrt_def

text \<open>The \<open>double\<close> constant is within half a unit in the last place of \<open>0.01\<close> (the doubles
  between \<open>2^-7\<close> and \<open>2^-6\<close> are \<open>2^-59\<close> apart), and above it.\<close>

lemma DBL_0_01_nearest: "\<bar>DBL_0_01 - 1 / 100\<bar> \<le> 1 / 2 ^ 60" "1 / 100 < DBL_0_01"
  by (simp_all add: DBL_0_01_def)

lemma fle_refl: "fle (Finite x) (Finite x)"
  by (simp add: fle_def is_nan_def is_inf_def)

lemma fle_flt_trans: "fle a b \<Longrightarrow> flt b c \<Longrightarrow> fle a c"
  by (cases a; cases b; cases c) (auto simp: fle_def flt_def is_nan_def is_inf_def val_def)

lemma fle_not_nan: "fle a b \<Longrightarrow> \<not> is_nan b"
  by (simp add: fle_def)

lemma not_fle_const: "(\<not> fle (Finite c) q) = (is_nan q \<or> flt q (Finite c))"
  by (cases q) (auto simp: fle_def flt_def is_nan_def is_inf_def val_def)

lemma not_flt_const: "\<not> is_nan m \<Longrightarrow> (\<not> flt (Finite c) m) = fle m (Finite c)"
  by (cases m) (auto simp: fle_def flt_def is_nan_def is_inf_def val_def)


section \<open>Properties of the k-means rounds\<close>

lemma nearest_loop_range:
  "nearest_loop temp_of js d c = Some k \<Longrightarrow> k \<in> set js \<or> c = Some k"
  by (induction js arbitrary: d c) (auto simp: Let_def split: if_splits)

lemma assign_row_frame:
  assumes "assign_row E dis points Cluster i st = Inr st'"
  shows "clusterCenter st' = clusterCenter st \<and> tag st' = tag st \<and> moving st' = moving st
       \<and> length (neighborVec st') = length (neighborVec st)
       \<and> length (storage st') = length (storage st)"
  using assms by (auto simp: assign_row_def split: option.splits)

lemma assign_rows_frame:
  "assign_rows E dis points Cluster rows st = Inr st' \<Longrightarrow>
     clusterCenter st' = clusterCenter st \<and> tag st' = tag st \<and> moving st' = moving st
     \<and> length (neighborVec st') = length (neighborVec st)
     \<and> length (storage st') = length (storage st)"
proof (induction rows arbitrary: st)
  case Nil
  then show ?case by simp
next
  case (Cons i rows)
  then obtain st1 where a: "assign_row E dis points Cluster i st = Inr st1"
    and b: "assign_rows E dis points Cluster rows st1 = Inr st'"
    by (auto split: sum.splits)
  from Cons.IH[OF b] assign_row_frame[OF a] show ?case by simp
qed

lemma update_loop_frame:
  "storage (update_loop E rows st) = storage st \<and> tag (update_loop E rows st) = tag st
   \<and> neighborVec (update_loop E rows st) = neighborVec st
   \<and> recorder (update_loop E rows st) = recorder st"
  by (induction rows arbitrary: st) (simp_all add: Let_def)

text \<open>The displacement starts a round at \<open>FLT_MIN\<close> and is only ever replaced by a larger
  value: it is a number from \<open>FLT_MIN\<close> on or the positive infinity.\<close>

lemma update_loop_moving:
  "fle (Finite FLT_MIN) (moving st) \<Longrightarrow> fle (Finite FLT_MIN) (moving (update_loop E rows st))"
proof (induction rows arbitrary: st)
  case Nil
  then show ?case by simp
next
  case (Cons i rows)
  show ?case
  proof (cases "storage st ! i > 0")
    case True
    let ?row = "row_div E (centerTemp st ! i) (storage st ! i)"
    let ?t = "row_dist E ?row (clusterCenter st ! i)"
    let ?st = "st\<lparr>centerTemp := (centerTemp st)[i := ?row],
                  clusterCenter := (clusterCenter st)[i := ?row],
                  moving := (if flt (moving st) ?t then ?t else moving st)\<rparr>"
    have "fle (Finite FLT_MIN) (moving ?st)"
      using Cons.prems by (auto intro: fle_flt_trans)
    then have "fle (Finite FLT_MIN) (moving (update_loop E rows ?st))" by (rule Cons.IH)
    then show ?thesis using True by (simp add: Let_def)
  next
    case False
    then show ?thesis using Cons.IH[OF Cons.prems] by simp
  qed
qed

lemma update_loop_empty_cluster:
  "storage st ! i = 0 \<Longrightarrow> clusterCenter (update_loop E rows st) ! i = clusterCenter st ! i"
proof (induction rows arbitrary: st)
  case Nil
  then show ?case by simp
next
  case (Cons j rows)
  show ?case
  proof (cases "storage st ! j > 0")
    case True
    with Cons.prems have ne: "j \<noteq> i" by auto
    let ?row = "row_div E (centerTemp st ! j) (storage st ! j)"
    let ?t = "row_dist E ?row (clusterCenter st ! j)"
    let ?st = "st\<lparr>centerTemp := (centerTemp st)[j := ?row],
                  clusterCenter := (clusterCenter st)[j := ?row],
                  moving := (if flt (moving st) ?t then ?t else moving st)\<rparr>"
    have "clusterCenter (update_loop E rows ?st) ! i = clusterCenter ?st ! i"
      by (rule Cons.IH) (simp add: Cons.prems)
    also have "\<dots> = clusterCenter st ! i" using ne by simp
    finally show ?thesis using True by (simp add: Let_def)
  next
    case False
    then show ?thesis using Cons.IH[OF Cons.prems] by simp
  qed
qed

lemma kmeans_body_facts:
  assumes "kmeans_body E dis points Row Cluster Dim st = Inr st'"
  shows "tag st' = tag st + 1" and "fle (Finite FLT_MIN) (moving st')"
proof -
  from assms obtain st1 where
    a: "assign_rows E dis points Cluster [0..<Row]
          (st\<lparr>storage := replicate Cluster 0,
              centerTemp := replicate Cluster (replicate Dim (Finite 0)),
              neighborVec := replicate Cluster []\<rparr>) = Inr st1"
    and b: "st' = (update_loop E [0..<Cluster] (st1\<lparr>moving := Finite FLT_MIN\<rparr>))
                    \<lparr>tag := tag (update_loop E [0..<Cluster] (st1\<lparr>moving := Finite FLT_MIN\<rparr>)) + 1\<rparr>"
    by (auto simp: kmeans_body_def Let_def split: sum.splits)
  from assign_rows_frame[OF a] b show "tag st' = tag st + 1"
    by (simp add: update_loop_frame)
  have "fle (Finite FLT_MIN) (moving (st1\<lparr>moving := Finite FLT_MIN\<rparr>))" by (simp add: fle_refl)
  from update_loop_moving[OF this, of E "[0..<Cluster]"] b
  show "fle (Finite FLT_MIN) (moving st')" by simp
qed

lemma assign_rows_defined:
  "\<forall>r\<in>set rows. nearest_loop (\<lambda>j. dis (clusterCenter st ! j) r) [0..<Cluster] (Finite FLT_MAX) None \<noteq> None
     \<Longrightarrow> \<exists>st'. assign_rows E dis points Cluster rows st = Inr st'"
proof (induction rows arbitrary: st)
  case Nil
  then show ?case by simp
next
  case (Cons i rows)
  from Cons.prems obtain st1 where a: "assign_row E dis points Cluster i st = Inr st1"
    by (auto simp: assign_row_def split: option.splits)
  from assign_row_frame[OF a] have "clusterCenter st1 = clusterCenter st" by simp
  with Cons.prems have "\<forall>r\<in>set rows.
      nearest_loop (\<lambda>j. dis (clusterCenter st1 ! j) r) [0..<Cluster] (Finite FLT_MAX) None \<noteq> None"
    by simp
  from Cons.IH[OF this] a show ?case by auto
qed

text \<open>
  C8.  In a round, the centroid of a cluster that received no point (\<open>storage[i] = 0\<close>
  after the assignment) is the centroid the round started with.  An empty cluster is no
  error: the round yields a state whenever every row finds a centroid nearer than
  \<open>FLT_MAX\<close>, whatever the cluster sizes (the only error of a round is the undefined
  \<open>clusTemp\<close>).  Both engines run this body.
\<close>

theorem C8_empty_cluster_centroid_unchanged:
  "(kmeans_body E dis points Row Cluster Dim st = Inr st' \<and> i < Cluster \<and> storage st' ! i = 0
      \<longrightarrow> clusterCenter st' ! i = clusterCenter st ! i)
   \<and> ((\<forall>r\<in>set [0..<Row].
          nearest_loop (\<lambda>j. dis (clusterCenter st ! j) r) [0..<Cluster] (Finite FLT_MAX) None \<noteq> None)
      \<longrightarrow> (\<exists>st''. kmeans_body E dis points Row Cluster Dim st = Inr st''))"
proof (intro conjI impI)
  assume h: "kmeans_body E dis points Row Cluster Dim st = Inr st' \<and> i < Cluster \<and> storage st' ! i = 0"
  let ?st0 = "st\<lparr>storage := replicate Cluster 0,
                  centerTemp := replicate Cluster (replicate Dim (Finite 0)),
                  neighborVec := replicate Cluster []\<rparr>"
  from h obtain st1 where
    a: "assign_rows E dis points Cluster [0..<Row] ?st0 = Inr st1"
    and b: "st' = (update_loop E [0..<Cluster] (st1\<lparr>moving := Finite FLT_MIN\<rparr>))
                    \<lparr>tag := tag (update_loop E [0..<Cluster] (st1\<lparr>moving := Finite FLT_MIN\<rparr>)) + 1\<rparr>"
    by (auto simp: kmeans_body_def Let_def split: sum.splits)
  from b have "storage st' = storage st1" by (simp add: update_loop_frame)
  with h have z: "storage (st1\<lparr>moving := Finite FLT_MIN\<rparr>) ! i = 0" by simp
  from b have "clusterCenter st' ! i
      = clusterCenter (update_loop E [0..<Cluster] (st1\<lparr>moving := Finite FLT_MIN\<rparr>)) ! i"
    by simp
  also have "\<dots> = clusterCenter (st1\<lparr>moving := Finite FLT_MIN\<rparr>) ! i"
    by (rule update_loop_empty_cluster[OF z])
  also have "\<dots> = clusterCenter st ! i" using assign_rows_frame[OF a] by simp
  finally show "clusterCenter st' ! i = clusterCenter st ! i" .
next
  assume h: "\<forall>r\<in>set [0..<Row].
      nearest_loop (\<lambda>j. dis (clusterCenter st ! j) r) [0..<Cluster] (Finite FLT_MAX) None \<noteq> None"
  let ?st0 = "st\<lparr>storage := replicate Cluster 0,
                  centerTemp := replicate Cluster (replicate Dim (Finite 0)),
                  neighborVec := replicate Cluster []\<rparr>"
  from h have "\<forall>r\<in>set [0..<Row].
      nearest_loop (\<lambda>j. dis (clusterCenter ?st0 ! j) r) [0..<Cluster] (Finite FLT_MAX) None \<noteq> None"
    by simp
  from assign_rows_defined[OF this, of E points] obtain st1 where
    "assign_rows E dis points Cluster [0..<Row] ?st0 = Inr st1" by blast
  then show "\<exists>st''. kmeans_body E dis points Row Cluster Dim st = Inr st''"
    by (simp add: kmeans_body_def Let_def)
qed


lemma kmeans_rounds_shift:
  "kmeans_rounds E dis points Row Cluster Dim (Suc k) st =
     (case kmeans_body E dis points Row Cluster Dim st of
        Inl e \<Rightarrow> Inl e
      | Inr st1 \<Rightarrow> kmeans_rounds E dis points Row Cluster Dim k st1)"
proof (induction k)
  case 0
  then show ?case by (simp split: sum.splits)
next
  case (Suc k)
  have "kmeans_rounds E dis points Row Cluster Dim (Suc (Suc k)) st =
      (case kmeans_rounds E dis points Row Cluster Dim (Suc k) st of
         Inl e \<Rightarrow> Inl e | Inr st' \<Rightarrow> kmeans_body E dis points Row Cluster Dim st')"
    by simp
  also have "\<dots> = (case kmeans_body E dis points Row Cluster Dim st of
        Inl e \<Rightarrow> Inl e
      | Inr st1 \<Rightarrow> kmeans_rounds E dis points Row Cluster Dim (Suc k) st1)"
    by (subst Suc.IH) (simp split: sum.splits)
  finally show ?case .
qed

lemma kmeans_rounds_tag:
  "kmeans_rounds E dis points Row Cluster Dim k st = Inr st' \<Longrightarrow> tag st' = tag st + k"
proof (induction k arbitrary: st')
  case 0
  then show ?case by simp
next
  case (Suc k)
  then obtain s where a: "kmeans_rounds E dis points Row Cluster Dim k st = Inr s"
    and b: "kmeans_body E dis points Row Cluster Dim s = Inr st'"
    by (auto split: sum.splits)
  from Suc.IH[OF a] kmeans_body_facts(1)[OF b] show ?case by simp
qed

lemma kmeans_rounds_moving:
  "kmeans_rounds E dis points Row Cluster Dim k st = Inr st' \<Longrightarrow>
     fle (Finite FLT_MIN) (moving st) \<Longrightarrow> fle (Finite FLT_MIN) (moving st')"
proof (cases k)
  case 0
  assume "kmeans_rounds E dis points Row Cluster Dim k st = Inr st'"
    "fle (Finite FLT_MIN) (moving st)"
  with 0 show ?thesis by simp
next
  case (Suc j)
  assume "kmeans_rounds E dis points Row Cluster Dim k st = Inr st'"
  with Suc obtain s where "kmeans_body E dis points Row Cluster Dim s = Inr st'"
    by (auto split: sum.splits)
  then show ?thesis by (rule kmeans_body_facts(2))
qed

text \<open>A run that ends with a state ends after some \<open>n \<ge> 1\<close> rounds, and the loop condition
  held after every earlier round and fails after the last.\<close>

lemma kmeans_loop_rounds:
  "kmeans_loop E dis points Row Cluster Dim st0 = Inr st \<Longrightarrow>
     \<exists>n. 1 \<le> n \<and> kmeans_rounds E dis points Row Cluster Dim n st0 = Inr st
       \<and> (\<forall>m<n. \<exists>a b. kmeans_rounds E dis points Row Cluster Dim m st0 = Inr a
                \<and> kmeans_rounds E dis points Row Cluster Dim (Suc m) st0 = Inr b
                \<and> (loop_continues (moving a) b \<longleftrightarrow> Suc m \<noteq> n))"
proof (induction E dis points Row Cluster Dim st0 rule: kmeans_loop.induct)
  case (1 E dis points Row Cluster Dim st0)
  from "1.prems" obtain st1 where body: "kmeans_body E dis points Row Cluster Dim st0 = Inr st1"
    by (subst (asm) kmeans_loop.simps) (auto split: sum.splits)
  show ?case
  proof (cases "loop_continues (moving st0) st1")
    case False
    with "1.prems" body have "st = st1"
      by (subst (asm) kmeans_loop.simps) simp
    with body False show ?thesis
      by (intro exI[of _ 1]) (auto simp: less_Suc_eq)
  next
    case True
    with "1.prems" body have "kmeans_loop E dis points Row Cluster Dim st1 = Inr st"
      by (subst (asm) kmeans_loop.simps) simp
    from "1.IH"[OF body True this] obtain n where n: "1 \<le> n"
      "kmeans_rounds E dis points Row Cluster Dim n st1 = Inr st"
      "\<forall>m<n. \<exists>a b. kmeans_rounds E dis points Row Cluster Dim m st1 = Inr a
                \<and> kmeans_rounds E dis points Row Cluster Dim (Suc m) st1 = Inr b
                \<and> (loop_continues (moving a) b \<longleftrightarrow> Suc m \<noteq> n)"
      by blast
    have sh: "kmeans_rounds E dis points Row Cluster Dim (Suc k) st0
        = kmeans_rounds E dis points Row Cluster Dim k st1" for k
      by (subst kmeans_rounds_shift) (simp add: body)
    have "\<exists>a b. kmeans_rounds E dis points Row Cluster Dim m st0 = Inr a
                \<and> kmeans_rounds E dis points Row Cluster Dim (Suc m) st0 = Inr b
                \<and> (loop_continues (moving a) b \<longleftrightarrow> Suc m \<noteq> Suc n)" if "m < Suc n" for m
    proof (cases m)
      case 0
      have "kmeans_rounds E dis points Row Cluster Dim (Suc 0) st0 = Inr st1"
        by (simp add: body)
      with 0 True n(1) show ?thesis by auto
    next
      case (Suc j)
      with that have "j < n" by simp
      with n(3) obtain a b where "kmeans_rounds E dis points Row Cluster Dim j st1 = Inr a"
        "kmeans_rounds E dis points Row Cluster Dim (Suc j) st1 = Inr b"
        "loop_continues (moving a) b \<longleftrightarrow> Suc j \<noteq> n" by blast
      with Suc show ?thesis by (simp only: sh) auto
    qed
    with n(2) show ?thesis
      by (intro exI[of _ "Suc n"]) (simp only: sh, simp)
  qed
qed

lemma kmeans_loop_exits:
  assumes run: "kmeans_loop E dis points Row Cluster Dim st0 = Inr st"
    and t0: "tag st0 = 0" and m0: "fle (Finite FLT_MIN) (moving st0)"
  shows "exits_at_first_trigger (\<lambda>n. kmeans_rounds E dis points Row Cluster Dim n st0) st"
proof -
  let ?R = "\<lambda>n. kmeans_rounds E dis points Row Cluster Dim n st0"
  from kmeans_loop_rounds[OF run] obtain n where n: "1 \<le> n" "?R n = Inr st"
    "\<forall>m<n. \<exists>a b. ?R m = Inr a \<and> ?R (Suc m) = Inr b
             \<and> (loop_continues (moving a) b \<longleftrightarrow> Suc m \<noteq> n)" by blast
  from kmeans_rounds_tag[OF n(2)] t0 have tn: "tag st = n" by simp
  have le: "n \<le> 20"
  proof (cases "n = 1")
    case True
    then show ?thesis by simp
  next
    case False
    with n(1) obtain j where j: "n = Suc (Suc j)" by (cases n; cases "n - 1") auto
    then have "j < n" by simp
    with n(3) obtain a b where ab: "?R j = Inr a" "?R (Suc j) = Inr b"
      "loop_continues (moving a) b \<longleftrightarrow> Suc j \<noteq> n" by blast
    from j ab(3) have "tag b < 20" by (simp add: loop_continues_def)
    with kmeans_rounds_tag[OF ab(2)] t0 j show ?thesis by simp
  qed
  have ok: "round_ok ?R n m" if "m < n" for m
  proof -
    from that n(3) obtain a b where ab: "?R m = Inr a" "?R (Suc m) = Inr b"
      "loop_continues (moving a) b \<longleftrightarrow> Suc m \<noteq> n" by blast
    from kmeans_rounds_tag[OF ab(2)] t0 have tb: "tag b = Suc m" by simp
    from kmeans_rounds_moving[OF ab(1) m0] have pos: "fle (Finite FLT_MIN) (moving a)" .
    from kmeans_rounds_moving[OF ab(2) m0] have "\<not> is_nan (moving b)" by (rule fle_not_nan)
    then have nf: "(\<not> flt (Finite DBL_0_01) (moving b)) = fle (moving b) (Finite DBL_0_01)"
      by (rule not_flt_const)
    from that le have "Suc m \<le> 20" by simp
    with tb have "exit_trigger (moving a) (moving b) (tag b) \<longleftrightarrow> \<not> loop_continues (moving a) b"
      unfolding exit_trigger_def loop_continues_def de_Morgan_conj not_fle_const nf by auto
    with ab tb pos show ?thesis by (simp add: round_ok_def)
  qed
  then have "list_all (round_ok ?R n) [0..<n]" by (simp add: list_all_iff)
  with n(1,2) le tn show ?thesis by (simp add: exits_at_first_trigger_def)
qed

lemma km_init_facts: "tag (km_init seeds Row Cluster) = 0"
  "fle (Finite FLT_MIN) (moving (km_init seeds Row Cluster))"
  by (simp_all add: km_init_def fle_def is_nan_def is_inf_def val_def FLT_MIN_def)

text \<open>
  C3, as the program computes it.  Both loops are instances of \<open>kmeans_loop\<close>, a total
  function: every run ends, with the error of an undefined \<open>clusTemp\<close> or with a state.  A
  run that ends with a state took between 1 and 20 rounds and left the loop at the first
  round after which a trigger held, the triggers being: the \<open>float\<close> quotient
  \<open>abs(moving - before) / before\<close> is below the \<open>double\<close> \<open>0.01\<close> or is not a number, the
  round count is 20, or the displacement is at most \<open>0.01\<close>.
\<close>

theorem C3_kmeans_exits_at_first_trigger:
  "(performPC_KMeans_loop E cArray Row PC_Number Cluster seeds = Inr st \<longrightarrow>
      exits_at_first_trigger
        (\<lambda>n. kmeans_rounds E (\<lambda>center i. row_dist E (cArray ! i) center) cArray Row Cluster
                PC_Number n (km_init seeds Row Cluster)) st)
   \<and> (performFullK_Means_loop E getDisimilarity data Row Column Cluster seeds = Inr st' \<longrightarrow>
      exits_at_first_trigger
        (\<lambda>n. kmeans_rounds E getDisimilarity data Row Cluster Column n (km_init seeds Row Cluster)) st')"
  by (auto simp: performPC_KMeans_loop_def performFullK_Means_loop_def km_init_facts
      intro!: kmeans_loop_exits)

subsection \<open>Runs on concrete inputs\<close>

lemma norm_f_single: "norm_f [x] = \<bar>x\<bar>"
  by (simp add: norm_f_def squaredNorm_def)

lemma sqrt_values: "sqrt 9 = 3" "sqrt 25 = 5" "sqrt 980100 = 990"
  by (rule real_sqrt_unique; simp)+

lemmas row_eval = eigen32_def fop_eval f32_eval sqrt_values

lemma dist_values:
  "row_dist eigen32 [Finite 0] [Finite 0] = Finite 0"
  "row_dist eigen32 [Finite 0] [Finite 5] = Finite 5"
  "row_dist eigen32 [Finite 2] [Finite 0] = Finite 2"
  "row_dist eigen32 [Finite 2] [Finite 5] = Finite 3"
  "row_dist eigen32 [Finite 0] [Finite 1] = Finite 1"
  "row_dist eigen32 [Finite 2] [Finite 1] = Finite 1"
  "row_dist eigen32 [Finite 1] [Finite 0] = Finite 1"
  "row_dist eigen32 [Finite 1] [Finite 1] = Finite 0"
  "row_dist eigen32 [Finite 0] [Finite 2] = Finite 2"
  "row_dist eigen32 [Finite 2] [Finite 2] = Finite 0"
  by (simp_all add: row_eval)

lemma add_values:
  "row_add eigen32 [Finite 0] [Finite 0] = [Finite 0]"
  "row_add eigen32 [Finite 0] [Finite 2] = [Finite 2]"
  by (simp_all add: row_eval)

lemma div_values:
  "row_div eigen32 [Finite 2] (Suc (Suc 0)) = [Finite 1]"
  "row_div eigen32 [Finite 0] (Suc 0) = [Finite 0]"
  "row_div eigen32 [Finite 2] (Suc 0) = [Finite 2]"
  by (simp_all add: row_eval)

lemma quotient_values:
  "fle (Finite DBL_0_01) (quotient (Finite 1) (Finite 1000))"
  "flt (Finite DBL_0_01) (Finite 1)"
  "\<not> flt (Finite DBL_0_01) (Finite FLT_MIN)"
  "flt (Finite FLT_MIN) (Finite 1)"
  "flt (Finite 0) (Finite FLT_MAX)" "flt (Finite 1) (Finite FLT_MAX)"
  "flt (Finite 2) (Finite FLT_MAX)" "flt (Finite 3) (Finite FLT_MAX)"
  "flt (Finite 5) (Finite FLT_MAX)"
  "\<not> flt (Finite FLT_MIN) (Finite 0)"
  by (simp_all add: quotient_def DBL_0_01_def FLT_MIN_def FLT_MAX_def fop_eval f32_eval)

lemmas km_eval = kmeans_body_def assign_row_def Let_def dist_values add_values div_values
  flt_def fle_def is_nan_def is_inf_def val_def FLT_MAX_def FLT_MIN_def upt_rec

lemma km_init_moving: "moving (km_init seeds Row Cluster) = Finite 1000"
  by (simp add: km_init_def)

text \<open>Two points 0 and 2 of a line, two clusters seeded at 0 and 5: both points go to the
  first cluster, whose centroid moves to 1 in the first round and stays in the second.\<close>

lemma two_points_round1:
  "kmeans_body eigen32 (\<lambda>center i. row_dist eigen32 ([[Finite 0], [Finite 2]] ! i) center)
     [[Finite 0], [Finite 2]] 2 2 1 (km_init [[Finite 0], [Finite 5]] 2 2)
   = Inr \<lparr>clusterCenter = [[Finite 1], [Finite 5]], moving = Finite 1, tag = 1, storage = [2, 0],
          neighborVec = [[0, 1], []], recorder = [0, 0], centerTemp = [[Finite 1], [Finite 0]]\<rparr>"
  by (simp add: km_eval km_init_def eval_nat_numeral)

lemma two_points_round2:
  "kmeans_body eigen32 (\<lambda>center i. row_dist eigen32 ([[Finite 0], [Finite 2]] ! i) center)
     [[Finite 0], [Finite 2]] 2 2 1
     \<lparr>clusterCenter = [[Finite 1], [Finite 5]], moving = Finite 1, tag = 1, storage = [2, 0],
      neighborVec = [[0, 1], []], recorder = [0, 0], centerTemp = [[Finite 1], [Finite 0]]\<rparr>
   = Inr \<lparr>clusterCenter = [[Finite 1], [Finite 5]], moving = Finite FLT_MIN, tag = 2,
          storage = [2, 0], neighborVec = [[0, 1], []], recorder = [0, 0],
          centerTemp = [[Finite 1], [Finite 0]]\<rparr>"
  by (simp add: km_eval eval_nat_numeral)

lemma two_points_loop:
  "kmeans_loop eigen32 (\<lambda>center i. row_dist eigen32 ([[Finite 0], [Finite 2]] ! i) center)
     [[Finite 0], [Finite 2]] 2 2 1 (km_init [[Finite 0], [Finite 5]] 2 2)
   = Inr \<lparr>clusterCenter = [[Finite 1], [Finite 5]], moving = Finite FLT_MIN, tag = 2,
          storage = [2, 0], neighborVec = [[0, 1], []], recorder = [0, 0],
          centerTemp = [[Finite 1], [Finite 0]]\<rparr>"
proof -
  have second: "kmeans_loop eigen32 (\<lambda>center i. row_dist eigen32 ([[Finite 0], [Finite 2]] ! i) center)
     [[Finite 0], [Finite 2]] 2 2 1
     \<lparr>clusterCenter = [[Finite 1], [Finite 5]], moving = Finite 1, tag = 1, storage = [2, 0],
      neighborVec = [[0, 1], []], recorder = [0, 0], centerTemp = [[Finite 1], [Finite 0]]\<rparr>
   = Inr \<lparr>clusterCenter = [[Finite 1], [Finite 5]], moving = Finite FLT_MIN, tag = 2,
          storage = [2, 0], neighborVec = [[0, 1], []], recorder = [0, 0],
          centerTemp = [[Finite 1], [Finite 0]]\<rparr>"
    by (subst kmeans_loop.simps)
       (simp add: two_points_round2 loop_continues_def quotient_values del: One_nat_def)
  show ?thesis
    by (subst kmeans_loop.simps)
       (simp add: two_points_round1 second loop_continues_def km_init_moving quotient_values
          del: One_nat_def)
qed


text \<open>Seeded at 0 and 2, each point is its own cluster and no centroid moves.\<close>

lemma two_points_apart_loop:
  "kmeans_loop eigen32 (\<lambda>center i. row_dist eigen32 ([[Finite 0], [Finite 2]] ! i) center)
     [[Finite 0], [Finite 2]] 2 2 1 (km_init [[Finite 0], [Finite 2]] 2 2)
   = Inr \<lparr>clusterCenter = [[Finite 0], [Finite 2]], moving = Finite FLT_MIN, tag = 1,
          storage = [1, 1], neighborVec = [[0], [1]], recorder = [0, 1],
          centerTemp = [[Finite 0], [Finite 2]]\<rparr>"
proof -
  have body: "kmeans_body eigen32 (\<lambda>center i. row_dist eigen32 ([[Finite 0], [Finite 2]] ! i) center)
     [[Finite 0], [Finite 2]] 2 2 1 (km_init [[Finite 0], [Finite 2]] 2 2)
   = Inr \<lparr>clusterCenter = [[Finite 0], [Finite 2]], moving = Finite FLT_MIN, tag = 1,
          storage = [1, 1], neighborVec = [[0], [1]], recorder = [0, 1],
          centerTemp = [[Finite 0], [Finite 2]]\<rparr>"
    by (simp add: km_eval km_init_def eval_nat_numeral)
  show ?thesis
    by (subst kmeans_loop.simps)
       (simp add: body loop_continues_def km_init_moving quotient_values del: One_nat_def)
qed

theorem C3_witness:
  "performPC_KMeans_loop eigen32 [[Finite 0], [Finite 2]] 2 1 2 [[Finite 0], [Finite 5]]
     = Inr \<lparr>clusterCenter = [[Finite 1], [Finite 5]], moving = Finite FLT_MIN, tag = 2,
            storage = [2, 0], neighborVec = [[0, 1], []], recorder = [0, 0],
            centerTemp = [[Finite 1], [Finite 0]]\<rparr>
   \<and> exits_at_first_trigger
        (\<lambda>n. kmeans_rounds eigen32
                (\<lambda>center i. row_dist eigen32 ([[Finite 0], [Finite 2]] ! i) center)
                [[Finite 0], [Finite 2]] 2 2 1 n (km_init [[Finite 0], [Finite 5]] 2 2))
        \<lparr>clusterCenter = [[Finite 1], [Finite 5]], moving = Finite FLT_MIN, tag = 2,
         storage = [2, 0], neighborVec = [[0, 1], []], recorder = [0, 0],
         centerTemp = [[Finite 1], [Finite 0]]\<rparr>
   \<and> performFullK_Means_loop eigen32
        (\<lambda>center i. row_dist eigen32 ([[Finite 0], [Finite 2]] ! i) center)
        [[Finite 0], [Finite 2]] 2 1 2 [[Finite 0], [Finite 5]]
     = Inr \<lparr>clusterCenter = [[Finite 1], [Finite 5]], moving = Finite FLT_MIN, tag = 2,
            storage = [2, 0], neighborVec = [[0, 1], []], recorder = [0, 0],
            centerTemp = [[Finite 1], [Finite 0]]\<rparr>"
proof -
  let ?S = "\<lparr>clusterCenter = [[Finite 1], [Finite 5]], moving = Finite FLT_MIN, tag = 2,
            storage = [2, 0], neighborVec = [[0, 1], []], recorder = [0, 0],
            centerTemp = [[Finite 1], [Finite 0]]\<rparr>"
  let ?P = "[[Finite 0], [Finite 2]]"
  let ?dis = "\<lambda>center i. row_dist eigen32 (?P ! i) center"
  have pc: "performPC_KMeans_loop eigen32 ?P 2 1 2 [[Finite 0], [Finite 5]] = Inr ?S"
    unfolding performPC_KMeans_loop_def by (rule two_points_loop)
  have full: "performFullK_Means_loop eigen32 ?dis ?P 2 1 2 [[Finite 0], [Finite 5]] = Inr ?S"
    unfolding performFullK_Means_loop_def by (rule two_points_loop)
  from C3_kmeans_exits_at_first_trigger[of eigen32 ?P 2 1 2 "[[Finite 0], [Finite 5]]" ?S
      ?dis ?P 1 ?S] pc full
  show ?thesis by blast
qed

text \<open>
  The claim as stated, with the triggers read on real numbers, fails on two runs.

  One point 990, one cluster seeded at 0: the displacement goes from the initial 1000 to
  990, the exact relative change is \<open>10/1000\<close>, not below \<open>0.01\<close>, and none of the three
  triggers of the claim holds; the \<open>float\<close> quotient is \<open>10737418 / 2^30\<close>, below the
  \<open>double\<close> \<open>0.01\<close>, and the loop ends after the first round.

  Two points at \<open>2^127\<close>, two clusters seeded at \<open>2^127\<close> (finite numbers): the sum of the
  two points overflows, the centroid and the displacement become infinite, and after
  the second round the quotient is \<open>abs(inf - inf) / inf\<close>, not a number: the loop ends
  with the counter at 2, the displacement infinite and no quotient below \<open>0.01\<close>.
\<close>

lemma near_values:
  "row_dist eigen32 [Finite 990] [Finite 0] = Finite 990"
  "row_add eigen32 [Finite 0] [Finite 990] = [Finite 990]"
  "row_div eigen32 [Finite 990] (Suc 0) = [Finite 990]"
  "quotient (Finite 990) (Finite 1000) = Finite (10737418 / 2 ^ 30)"
  by (simp_all add: quotient_def row_eval)

lemma near_run:
  "kmeans_loop eigen32 (\<lambda>center i. row_dist eigen32 ([[Finite 990]] ! i) center)
     [[Finite 990]] 1 1 1 (km_init [[Finite 0]] 1 1)
   = Inr \<lparr>clusterCenter = [[Finite 990]], moving = Finite 990, tag = 1, storage = [1],
          neighborVec = [[0]], recorder = [0], centerTemp = [[Finite 990]]\<rparr>"
proof -
  have body: "kmeans_body eigen32 (\<lambda>center i. row_dist eigen32 ([[Finite 990]] ! i) center)
     [[Finite 990]] 1 1 1 (km_init [[Finite 0]] 1 1)
   = Inr \<lparr>clusterCenter = [[Finite 990]], moving = Finite 990, tag = 1, storage = [1],
          neighborVec = [[0]], recorder = [0], centerTemp = [[Finite 990]]\<rparr>"
    by (simp add: kmeans_body_def assign_row_def Let_def near_values km_init_def
        flt_def is_nan_def val_def FLT_MAX_def FLT_MIN_def)
  show ?thesis
    by (subst kmeans_loop.simps)
       (simp add: body loop_continues_def km_init_moving near_values DBL_0_01_def
          fle_def is_nan_def is_inf_def val_def del: One_nat_def)
qed

lemma far_values:
  "row_dist eigen32 [Finite 170141183460469231731687303715884105728]
     [Finite 170141183460469231731687303715884105728] = Finite 0"
  "row_dist eigen32 [Finite 170141183460469231731687303715884105728] [PInf] = PInf"
  "row_dist eigen32 [PInf] [Finite 170141183460469231731687303715884105728] = PInf"
  "row_add eigen32 [Finite 0] [Finite 170141183460469231731687303715884105728]
     = [Finite 170141183460469231731687303715884105728]"
  "row_add eigen32 [Finite 170141183460469231731687303715884105728]
     [Finite 170141183460469231731687303715884105728] = [PInf]"
  "row_div eigen32 [PInf] (Suc (Suc 0)) = [PInf]"
  "quotient PInf (Finite 1000) = PInf"
  "quotient PInf PInf = NaN"
  by (simp_all add: quotient_def row_eval)

lemma far_round1:
  "kmeans_body eigen32
     (\<lambda>center i. row_dist eigen32 ([[Finite 170141183460469231731687303715884105728],
                                      [Finite 170141183460469231731687303715884105728]] ! i) center)
     [[Finite 170141183460469231731687303715884105728],
      [Finite 170141183460469231731687303715884105728]] 2 2 1
     (km_init [[Finite 170141183460469231731687303715884105728],
               [Finite 170141183460469231731687303715884105728]] 2 2)
   = Inr \<lparr>clusterCenter = [[PInf], [Finite 170141183460469231731687303715884105728]],
          moving = PInf, tag = 1, storage = [2, 0], neighborVec = [[0, 1], []],
          recorder = [0, 0], centerTemp = [[PInf], [Finite 0]]\<rparr>"
  by (simp add: kmeans_body_def assign_row_def Let_def far_values km_init_def
      flt_def is_nan_def val_def FLT_MAX_def FLT_MIN_def upt_rec eval_nat_numeral)

lemma far_round2:
  "kmeans_body eigen32
     (\<lambda>center i. row_dist eigen32 ([[Finite 170141183460469231731687303715884105728],
                                      [Finite 170141183460469231731687303715884105728]] ! i) center)
     [[Finite 170141183460469231731687303715884105728],
      [Finite 170141183460469231731687303715884105728]] 2 2 1
     \<lparr>clusterCenter = [[PInf], [Finite 170141183460469231731687303715884105728]],
      moving = PInf, tag = 1, storage = [2, 0], neighborVec = [[0, 1], []],
      recorder = [0, 0], centerTemp = [[PInf], [Finite 0]]\<rparr>
   = Inr \<lparr>clusterCenter = [[PInf], [PInf]], moving = PInf, tag = 2, storage = [0, 2],
          neighborVec = [[], [0, 1]], recorder = [1, 1], centerTemp = [[Finite 0], [PInf]]\<rparr>"
  by (simp add: kmeans_body_def assign_row_def Let_def far_values
      flt_def is_nan_def val_def FLT_MAX_def FLT_MIN_def upt_rec eval_nat_numeral)

lemma far_run:
  "kmeans_loop eigen32
     (\<lambda>center i. row_dist eigen32 ([[Finite 170141183460469231731687303715884105728],
                                      [Finite 170141183460469231731687303715884105728]] ! i) center)
     [[Finite 170141183460469231731687303715884105728],
      [Finite 170141183460469231731687303715884105728]] 2 2 1
     (km_init [[Finite 170141183460469231731687303715884105728],
               [Finite 170141183460469231731687303715884105728]] 2 2)
   = Inr \<lparr>clusterCenter = [[PInf], [PInf]], moving = PInf, tag = 2, storage = [0, 2],
          neighborVec = [[], [0, 1]], recorder = [1, 1], centerTemp = [[Finite 0], [PInf]]\<rparr>"
proof -
  have second: "kmeans_loop eigen32
     (\<lambda>center i. row_dist eigen32 ([[Finite 170141183460469231731687303715884105728],
                                      [Finite 170141183460469231731687303715884105728]] ! i) center)
     [[Finite 170141183460469231731687303715884105728],
      [Finite 170141183460469231731687303715884105728]] 2 2 1
     \<lparr>clusterCenter = [[PInf], [Finite 170141183460469231731687303715884105728]],
      moving = PInf, tag = 1, storage = [2, 0], neighborVec = [[0, 1], []],
      recorder = [0, 0], centerTemp = [[PInf], [Finite 0]]\<rparr>
   = Inr \<lparr>clusterCenter = [[PInf], [PInf]], moving = PInf, tag = 2, storage = [0, 2],
          neighborVec = [[], [0, 1]], recorder = [1, 1], centerTemp = [[Finite 0], [PInf]]\<rparr>"
    by (subst kmeans_loop.simps)
       (simp add: far_round2 loop_continues_def far_values fle_def is_nan_def
          del: One_nat_def)
  show ?thesis
    by (subst kmeans_loop.simps)
       (simp add: far_round1 second loop_continues_def km_init_moving far_values
          fle_def flt_def is_nan_def is_inf_def val_def DBL_0_01_def del: One_nat_def)
qed

theorem C3_stated_triggers_counterexample:
  "performPC_KMeans_loop eigen32 [[Finite 990]] 1 1 1 [[Finite 0]]
     = Inr \<lparr>clusterCenter = [[Finite 990]], moving = Finite 990, tag = 1, storage = [1],
            neighborVec = [[0]], recorder = [0], centerTemp = [[Finite 990]]\<rparr>
   \<and> moving (km_init [[Finite 0]] 1 1) = Finite 1000
   \<and> \<not> stop_trigger 1000 990 1
   \<and> (170141183460469231731687303715884105728 :: real) = 2 ^ 127
   \<and> performPC_KMeans_loop eigen32
        [[Finite 170141183460469231731687303715884105728],
         [Finite 170141183460469231731687303715884105728]] 2 1 2
        [[Finite 170141183460469231731687303715884105728],
         [Finite 170141183460469231731687303715884105728]]
     = Inr \<lparr>clusterCenter = [[PInf], [PInf]], moving = PInf, tag = 2, storage = [0, 2],
            neighborVec = [[], [0, 1]], recorder = [1, 1], centerTemp = [[Finite 0], [PInf]]\<rparr>
   \<and> kmeans_rounds eigen32
        (\<lambda>center i. row_dist eigen32 ([[Finite 170141183460469231731687303715884105728],
                                         [Finite 170141183460469231731687303715884105728]] ! i) center)
        [[Finite 170141183460469231731687303715884105728],
         [Finite 170141183460469231731687303715884105728]] 2 2 1 (Suc 0)
        (km_init [[Finite 170141183460469231731687303715884105728],
                  [Finite 170141183460469231731687303715884105728]] 2 2)
     = Inr \<lparr>clusterCenter = [[PInf], [Finite 170141183460469231731687303715884105728]],
            moving = PInf, tag = 1, storage = [2, 0], neighborVec = [[0, 1], []],
            recorder = [0, 0], centerTemp = [[PInf], [Finite 0]]\<rparr>
   \<and> quotient PInf PInf = NaN
   \<and> \<not> flt NaN (Finite DBL_0_01)
   \<and> \<not> fle PInf (Finite DBL_0_01)"
proof -
  have a: "performPC_KMeans_loop eigen32 [[Finite 990]] 1 1 1 [[Finite 0]]
     = Inr \<lparr>clusterCenter = [[Finite 990]], moving = Finite 990, tag = 1, storage = [1],
            neighborVec = [[0]], recorder = [0], centerTemp = [[Finite 990]]\<rparr>"
    unfolding performPC_KMeans_loop_def by (rule near_run)
  have b: "\<not> stop_trigger 1000 990 1" by (simp add: stop_trigger_def)
  have c: "performPC_KMeans_loop eigen32
        [[Finite 170141183460469231731687303715884105728],
         [Finite 170141183460469231731687303715884105728]] 2 1 2
        [[Finite 170141183460469231731687303715884105728],
         [Finite 170141183460469231731687303715884105728]]
     = Inr \<lparr>clusterCenter = [[PInf], [PInf]], moving = PInf, tag = 2, storage = [0, 2],
            neighborVec = [[], [0, 1]], recorder = [1, 1], centerTemp = [[Finite 0], [PInf]]\<rparr>"
    unfolding performPC_KMeans_loop_def by (rule far_run)
  have d: "kmeans_rounds eigen32
        (\<lambda>center i. row_dist eigen32 ([[Finite 170141183460469231731687303715884105728],
                                         [Finite 170141183460469231731687303715884105728]] ! i) center)
        [[Finite 170141183460469231731687303715884105728],
         [Finite 170141183460469231731687303715884105728]] 2 2 1 (Suc 0)
        (km_init [[Finite 170141183460469231731687303715884105728],
                  [Finite 170141183460469231731687303715884105728]] 2 2)
     = Inr \<lparr>clusterCenter = [[PInf], [Finite 170141183460469231731687303715884105728]],
            moving = PInf, tag = 1, storage = [2, 0], neighborVec = [[0, 1], []],
            recorder = [0, 0], centerTemp = [[PInf], [Finite 0]]\<rparr>"
    by (simp add: far_round1 del: One_nat_def)
  have e: "\<not> flt NaN (Finite DBL_0_01)" "\<not> fle PInf (Finite DBL_0_01)"
    by (simp_all add: flt_def fle_def is_nan_def is_inf_def)
  from a b c d e far_values(8) km_init_moving show ?thesis by simp
qed

theorem C8_witness:
  "kmeans_body eigen32 (\<lambda>center i. row_dist eigen32 ([[Finite 0], [Finite 2]] ! i) center)
     [[Finite 0], [Finite 2]] 2 2 1 (km_init [[Finite 0], [Finite 5]] 2 2)
   = Inr \<lparr>clusterCenter = [[Finite 1], [Finite 5]], moving = Finite 1, tag = 1, storage = [2, 0],
          neighborVec = [[0, 1], []], recorder = [0, 0], centerTemp = [[Finite 1], [Finite 0]]\<rparr>
   \<and> storage \<lparr>clusterCenter = [[Finite 1], [Finite 5]], moving = Finite 1, tag = 1,
          storage = [2, 0], neighborVec = [[0, 1], []], recorder = [0, 0],
          centerTemp = [[Finite 1], [Finite 0]]\<rparr> ! 1 = 0
   \<and> clusterCenter \<lparr>clusterCenter = [[Finite 1], [Finite 5]], moving = Finite 1, tag = 1,
          storage = [2, 0], neighborVec = [[0, 1], []], recorder = [0, 0],
          centerTemp = [[Finite 1], [Finite 0]]\<rparr> ! 1
     = clusterCenter (km_init [[Finite 0], [Finite 5]] 2 2) ! 1
   \<and> nearest_loop (\<lambda>j. row_dist eigen32 ([[Finite 0], [Finite 2]] ! 0)
                         (clusterCenter (km_init [[Finite 0], [Finite 5]] 2 2) ! j))
        [0..<2] (Finite FLT_MAX) None = Some 0
   \<and> nearest_loop (\<lambda>j. row_dist eigen32 ([[Finite 0], [Finite 2]] ! 1)
                         (clusterCenter (km_init [[Finite 0], [Finite 5]] 2 2) ! j))
        [0..<2] (Finite FLT_MAX) None = Some 0"
proof -
  let ?P = "[[Finite 0], [Finite 2]]"
  let ?dis = "\<lambda>center i. row_dist eigen32 (?P ! i) center"
  let ?I = "km_init [[Finite 0], [Finite 5]] 2 2"
  let ?S = "\<lparr>clusterCenter = [[Finite 1], [Finite 5]], moving = Finite 1, tag = 1,
          storage = [2, 0], neighborVec = [[0, 1], []], recorder = [0, 0],
          centerTemp = [[Finite 1], [Finite 0]]\<rparr>"
  have n0: "nearest_loop (\<lambda>j. ?dis (clusterCenter ?I ! j) 0) [0..<2] (Finite FLT_MAX) None = Some 0"
    by (simp add: km_eval km_init_def)
  have n1: "nearest_loop (\<lambda>j. ?dis (clusterCenter ?I ! j) 1) [0..<2] (Finite FLT_MAX) None = Some 0"
    by (simp add: km_eval km_init_def)
  have all: "\<forall>r\<in>set [0..<2]. nearest_loop (\<lambda>j. ?dis (clusterCenter ?I ! j) r)
       [0..<2] (Finite FLT_MAX) None \<noteq> None"
  proof
    fix r :: nat assume "r \<in> set [0..<2]"
    then have "r = 0 \<or> r = 1" by auto
    with n0 n1 show "nearest_loop (\<lambda>j. ?dis (clusterCenter ?I ! j) r)
       [0..<2] (Finite FLT_MAX) None \<noteq> None" by auto
  qed
  have s: "storage ?S ! 1 = 0" by simp
  from C8_empty_cluster_centroid_unchanged[of eigen32 ?dis ?P 2 2 1 ?I ?S 1]
    two_points_round1 s all n0 n1
  show ?thesis by simp
qed


section \<open>Properties of the hierarchical merger\<close>

subsection \<open>The running minimum and the entries written\<close>

lemma push_node_fst: "fst (push_node d acc) = fst acc @ [d]"
  by (cases acc) (simp add: push_node_def)

lemma push_node_track: "track_ok acc \<Longrightarrow> track_ok (push_node d acc)"
  by (cases acc) (auto simp: push_node_def track_ok_def)

lemma scan_loop_fst: "fst (scan_loop dv acc) = fst acc @ dv"
  by (induction dv arbitrary: acc) (simp_all add: push_node_fst)

lemma scan_loop_track: "track_ok acc \<Longrightarrow> track_ok (scan_loop dv acc)"
  by (induction dv arbitrary: acc) (simp_all add: push_node_track)

lemma copy_loop_fst: "fst (copy_loop p dv acc) = fst acc @ filter (unrelated p) dv"
  by (induction dv arbitrary: acc) (simp_all add: push_node_fst unrelated_def)

lemma copy_loop_track: "track_ok acc \<Longrightarrow> track_ok (copy_loop p dv acc)"
  by (induction dv arbitrary: acc) (simp_all add: push_node_track)

lemma link_loop_track:
  "link_loop D newNode m acc = Inr acc' \<Longrightarrow> track_ok acc \<Longrightarrow> track_ok acc'"
  by (induction m arbitrary: acc) (auto simp: push_node_track split: if_splits sum.splits)

lemma link_loop_fst:
  "link_loop D newNode m acc = Inr acc' \<Longrightarrow>
     \<exists>news. fst acc' = fst acc @ news
       \<and> map (\<lambda>d. (first d, second d)) news
           = map (\<lambda>kv. (fst kv, nat (index newNode))) (filter (\<lambda>kv. int (fst kv) \<noteq> index newNode) m)"
proof (induction m arbitrary: acc)
  case Nil
  then show ?case by simp
next
  case (Cons it m)
  show ?case
  proof (cases "int (fst it) \<noteq> index newNode")
    case False
    with Cons.prems have "link_loop D newNode m acc = Inr acc'" by simp
    from Cons.IH[OF this] False show ?thesis by auto
  next
    case True
    with Cons.prems obtain v where
      v: "getDistAtNodes (element newNode) (element (snd it)) D = Inr v"
      and r: "link_loop D newNode m
                (push_node \<lparr>first = fst it, second = nat (index newNode), distance = v\<rparr> acc) = Inr acc'"
      by (auto split: sum.splits)
    from Cons.IH[OF r] obtain news where
      "fst acc' = fst acc @ \<lparr>first = fst it, second = nat (index newNode), distance = v\<rparr> # news"
      "map (\<lambda>d. (first d, second d)) news
           = map (\<lambda>kv. (fst kv, nat (index newNode))) (filter (\<lambda>kv. int (fst kv) \<noteq> index newNode) m)"
      by (auto simp: push_node_fst)
    with True show ?thesis
      by (intro exI[of _ "\<lparr>first = fst it, second = nat (index newNode), distance = v\<rparr> # news"])
         simp
  qed
qed

subsection \<open>The node map\<close>

lemma nm_index_present: "map_of m k = Some v \<Longrightarrow> nm_index k dnode m = (v, m)"
  by (simp add: nm_index_def)

lemma map_of_key: "k \<in> fst ` set m \<Longrightarrow> \<exists>v. map_of m k = Some v"
  by (cases "map_of m k") (auto simp: map_of_eq_None_iff)

lemma elements_split:
  "distinct (map fst m) \<Longrightarrow> map_of m a = Some na \<Longrightarrow>
     mset (concat (map (\<lambda>kv. element (snd kv)) m))
       = mset (element na) + mset (concat (map (\<lambda>kv. element (snd kv)) (filter (\<lambda>kv. fst kv \<noteq> a) m)))"
proof (induction m)
  case Nil
  then show ?case by simp
next
  case (Cons kv m)
  show ?case
  proof (cases "fst kv = a")
    case True
    with Cons.prems have "a \<notin> fst ` set m" by auto
    then have "filter (\<lambda>kv. fst kv \<noteq> a) m = m" by (auto simp: filter_id_conv)
    moreover from True Cons.prems have "snd kv = na" by (cases kv) simp
    ultimately show ?thesis using True by simp
  next
    case False
    with Cons.prems have "map_of m a = Some na" by (cases kv) (auto split: if_splits)
    with Cons.IH Cons.prems False show ?thesis by simp
  qed
qed

lemma map_of_filter_other:
  "a \<noteq> b \<Longrightarrow> map_of (filter (\<lambda>kv. fst kv \<noteq> a) m) b = map_of m b"
  by (induction m) auto

lemma concat_update_append:
  "g < length xs \<Longrightarrow> mset (concat (xs[g := xs ! g @ ys])) = mset (concat xs) + mset ys"
proof (induction xs arbitrary: g)
  case Nil
  then show ?case by simp
next
  case (Cons x xs)
  then show ?case by (cases g) simp_all
qed

lemma mset_partition: "mset (concat members) = mset [0..<Row] \<Longrightarrow> is_partition Row members"
proof -
  assume h: "mset (concat members) = mset [0..<Row]"
  then have "distinct (concat members) \<longleftrightarrow> distinct [0..<Row]"
    by (rule mset_eq_imp_distinct_iff)
  moreover from h have "set (concat members) = set [0..<Row]" by (rule mset_eq_setD)
  ultimately show ?thesis by (simp add: is_partition_def)
qed


subsection \<open>Candidate pairs\<close>

lemma unrelated_pair: "unrelated p d \<longleftrightarrow> pair_of d \<inter> {first p, second p} = {}"
  by (auto simp: unrelated_def pair_of_def)

lemma live_pairs_mem:
  "P \<in> live_pairs m \<longleftrightarrow> (\<exists>x y. P = {x, y} \<and> x \<noteq> y \<and> x \<in> fst ` set m \<and> y \<in> fst ` set m)"
proof
  assume "P \<in> live_pairs m"
  then have sub: "P \<subseteq> fst ` set m" and c: "card P = 2" by (simp_all add: live_pairs_def)
  from c have "\<exists>x y. P = {x, y} \<and> x \<noteq> y" by (simp only: card_2_iff)
  then obtain x y where xy: "P = {x, y}" "x \<noteq> y" by blast
  from sub xy(1) have "x \<in> fst ` set m" "y \<in> fst ` set m" by simp_all
  with xy show "\<exists>x y. P = {x, y} \<and> x \<noteq> y \<and> x \<in> fst ` set m \<and> y \<in> fst ` set m"
    by blast
next
  assume "\<exists>x y. P = {x, y} \<and> x \<noteq> y \<and> x \<in> fst ` set m \<and> y \<in> fst ` set m"
  then obtain x y where xy: "P = {x, y}" "x \<noteq> y" "x \<in> fst ` set m" "y \<in> fst ` set m"
    by blast
  from xy(2) have "card {x, y} = 2" by simp
  with xy show "P \<in> live_pairs m" by (simp add: live_pairs_def)
qed

lemma pairs_length:
  assumes "one_entry_per_pair m dv" "distinct (map fst m)"
  shows "length dv = length m * (length m - 1) div 2"
proof -
  from assms(1) have d: "distinct (map pair_of dv)"
    and e: "set (map pair_of dv) = {P. P \<subseteq> fst ` set m \<and> card P = 2}"
    by (simp_all only: one_entry_per_pair_def live_pairs_def)
  have "length dv = length (map pair_of dv)" by simp
  also have "\<dots> = card (set (map pair_of dv))"
    using distinct_card[OF d] by simp
  also have "\<dots> = card {P. P \<subseteq> fst ` set m \<and> card P = 2}"
    by (simp only: e)
  also have "\<dots> = card (fst ` set m) choose 2"
    by (rule n_subsets) simp
  also have "card (fst ` set m) = length m"
    using distinct_card[OF assms(2)] by simp
  finally show ?thesis by (simp add: choose_two)
qed

lemma poped_live:
  assumes "one_entry_per_pair m dv" "p \<in> set dv"
  shows "first p \<in> fst ` set m" "second p \<in> fst ` set m" "first p \<noteq> second p"
proof -
  from assms(1) have "set (map pair_of dv) = live_pairs m"
    by (simp only: one_entry_per_pair_def)
  moreover from assms(2) have "pair_of p \<in> set (map pair_of dv)" by simp
  ultimately have "pair_of p \<in> live_pairs m" by simp
  then have "\<exists>x y. pair_of p = {x, y} \<and> x \<noteq> y \<and> x \<in> fst ` set m \<and> y \<in> fst ` set m"
    by (simp only: live_pairs_mem)
  then obtain x y where xy: "{first p, second p} = {x, y}" "x \<noteq> y"
    "x \<in> fst ` set m" "y \<in> fst ` set m"
    unfolding pair_of_def by blast
  from xy(1) have "(first p = x \<and> second p = y) \<or> (first p = y \<and> second p = x)"
    by (simp add: doubleton_eq_iff)
  with xy show "first p \<in> fst ` set m" "second p \<in> fst ` set m" "first p \<noteq> second p"
    by auto
qed

text \<open>The rebuilt pairs: the old entries apart from the merged nodes \<open>a\<close> and \<open>b\<close>, then one
  entry to the new node \<open>N\<close> for each other live node.\<close>

lemma rebuilt_pairs_ok:
  assumes old: "one_entry_per_pair m dv" and dist: "distinct (map fst m)"
    and fresh: "N \<notin> fst ` set m" and ab: "a \<in> fst ` set m" "b \<in> fst ` set m"
    and p: "first p = a" "second p = b"
    and m': "m' = filter (\<lambda>kv. fst kv \<noteq> a \<and> fst kv \<noteq> b) m"
    and news: "map (\<lambda>d. (first d, second d)) news = map (\<lambda>kv. (fst kv, N)) m'"
  shows "one_entry_per_pair (m' @ [(N, nn)]) (filter (unrelated p) dv @ news)"
proof -
  let ?K = "fst ` set m"
  let ?K' = "fst ` set m'"
  have K': "?K' = ?K - {a, b}" using m' by auto
  have pn: "map pair_of news = map (\<lambda>kv. {fst kv, N}) m'"
  proof -
    have "map pair_of news = map (\<lambda>xy. {fst xy, snd xy}) (map (\<lambda>d. (first d, second d)) news)"
      by (simp add: pair_of_def comp_def)
    also have "\<dots> = map (\<lambda>kv. {fst kv, N}) m'" by (simp only: news) (simp add: comp_def)
    finally show ?thesis .
  qed
  have oldset: "set (map pair_of dv) = live_pairs m" and olddist: "distinct (map pair_of dv)"
    using old by (simp_all add: one_entry_per_pair_def)
  have d1: "distinct (map pair_of (filter (unrelated p) dv))"
    using olddist by (rule distinct_map_filter)
  have dm': "distinct (map fst m')" using dist m' by (simp add: distinct_map_filter)
  have NK': "N \<notin> ?K'" using fresh K' by simp
  have inj: "inj_on (\<lambda>kv. {fst kv, N}) (set m')"
  proof (rule inj_onI)
    fix x y assume x: "x \<in> set m'" and y: "y \<in> set m'" and e: "{fst x, N} = {fst y, N}"
    from x y NK' have "fst x \<noteq> N" "fst y \<noteq> N" by auto
    with e have "fst x = fst y" by (auto simp: doubleton_eq_iff)
    moreover from dm' have "inj_on fst (set m')" by (simp add: distinct_map)
    ultimately show "x = y" using x y by (auto dest: inj_onD)
  qed
  have d2: "distinct (map pair_of news)"
    unfolding pn using dm' inj by (simp add: distinct_map)
  have s1: "set (map pair_of (filter (unrelated p) dv)) = {P. P \<subseteq> ?K' \<and> card P = 2}"
  proof (rule set_eqI)
    fix P
    have "P \<in> set (map pair_of (filter (unrelated p) dv))
        \<longleftrightarrow> P \<in> set (map pair_of dv) \<and> P \<inter> {a, b} = {}"
      using p by (auto simp: unrelated_pair)
    also have "\<dots> \<longleftrightarrow> P \<subseteq> ?K \<and> card P = 2 \<and> P \<inter> {a, b} = {}"
      by (simp only: oldset live_pairs_def mem_Collect_eq conj_assoc)
    also have "\<dots> \<longleftrightarrow> P \<subseteq> ?K' \<and> card P = 2"
      unfolding K' by auto
    finally show "P \<in> set (map pair_of (filter (unrelated p) dv))
        \<longleftrightarrow> P \<in> {P. P \<subseteq> ?K' \<and> card P = 2}" by simp
  qed
  have s2: "set (map pair_of news) = {{k, N} | k. k \<in> ?K'}"
    unfolding pn by auto
  have disj: "set (map pair_of (filter (unrelated p) dv)) \<inter> set (map pair_of news) = {}"
    unfolding s1 s2 using NK' by auto
  have keys: "fst ` set (m' @ [(N, nn)]) = insert N ?K'" by auto
  have split: "{P. P \<subseteq> insert N ?K' \<and> card P = 2}
      = {P. P \<subseteq> ?K' \<and> card P = 2} \<union> {{k, N} | k. k \<in> ?K'}"
  proof (rule set_eqI, rule iffI)
    fix P assume "P \<in> {P. P \<subseteq> insert N ?K' \<and> card P = 2}"
    then have sub: "P \<subseteq> insert N ?K'" and c: "card P = 2" by auto
    from c obtain x y where xy: "P = {x, y}" "x \<noteq> y" by (auto simp: card_2_iff)
    show "P \<in> {P. P \<subseteq> ?K' \<and> card P = 2} \<union> {{k, N} | k. k \<in> ?K'}"
    proof (cases "N \<in> P")
      case False
      with sub c show ?thesis by auto
    next
      case True
      with xy sub have "(x = N \<and> y \<in> ?K') \<or> (y = N \<and> x \<in> ?K')" by auto
      with xy show ?thesis by (auto simp: insert_commute)
    qed
  next
    fix P assume "P \<in> {P. P \<subseteq> ?K' \<and> card P = 2} \<union> {{k, N} | k. k \<in> ?K'}"
    then show "P \<in> {P. P \<subseteq> insert N ?K' \<and> card P = 2}"
      using NK' by (auto simp: card_2_iff)
  qed
  show ?thesis
    unfolding one_entry_per_pair_def live_pairs_def keys split
    using d1 d2 disj s1 s2 by (simp only: map_append distinct_append set_append)
qed


subsection \<open>One round of the merger\<close>

lemma rebuild_pairs_char:
  assumes inv: "ahc_inv Row s"
    and rb: "rebuild_pairs dflt D s = Inr (m4, tempVec, target, minDist)"
  shows "\<exists>na nb news.
      map_of (nodeMap s) (first (poped s)) = Some na
    \<and> map_of (nodeMap s) (second (poped s)) = Some nb
    \<and> first (poped s) \<noteq> second (poped s)
    \<and> m4 = filter (\<lambda>kv. fst kv \<noteq> first (poped s) \<and> fst kv \<noteq> second (poped s)) (nodeMap s)
           @ [(new_index s, \<lparr>index = int (new_index s), element = element na @ element nb\<rparr>)]
    \<and> tempVec = filter (unrelated (poped s)) (dNodeVec s) @ news
    \<and> map (\<lambda>d. (first d, second d)) news
        = map (\<lambda>kv. (fst kv, new_index s))
            (filter (\<lambda>kv. fst kv \<noteq> first (poped s) \<and> fst kv \<noteq> second (poped s)) (nodeMap s))
    \<and> track_ok (tempVec, target, minDist)"
proof -
  let ?m = "nodeMap s" and ?a = "first (poped s)" and ?b = "second (poped s)"
    and ?N = "new_index s"
  let ?m' = "filter (\<lambda>kv. fst kv \<noteq> ?a \<and> fst kv \<noteq> ?b) ?m"
  from inv have pairs: "one_entry_per_pair ?m (dNodeVec s)" and pin: "poped s \<in> set (dNodeVec s)"
    and below: "list_all (\<lambda>kv. fst kv < ?N) ?m"
    by (simp_all add: ahc_inv_def)
  from poped_live[OF pairs pin] have ak: "?a \<in> fst ` set ?m" and bk: "?b \<in> fst ` set ?m"
    and ab: "?a \<noteq> ?b" by simp_all
  from map_of_key[OF ak] obtain na where na: "map_of ?m ?a = Some na" by blast
  from map_of_key[OF bk] obtain nb where nb: "map_of ?m ?b = Some nb" by blast
  from below have fresh: "?N \<notin> fst ` set ?m" by (auto simp: list_all_iff)
  then have none: "map_of ?m ?N = None" by (simp add: map_of_eq_None_iff)
  from fresh ak have Na: "?N \<noteq> ?a" by metis
  from fresh bk have Nb: "?N \<noteq> ?b" by metis
  let ?nn = "\<lparr>index = int ?N, element = element na @ element nb\<rparr>"
  have m3: "nm_insert ?N ?nn ?m = ?m @ [(?N, ?nn)]" by (simp add: nm_insert_def none)
  have m4': "nm_erase ?b (nm_erase ?a (?m @ [(?N, ?nn)])) = ?m' @ [(?N, ?nn)]"
    using Na Nb by (simp add: nm_erase_def)
  from rb have lk: "link_loop D ?nn (?m' @ [(?N, ?nn)])
        (copy_loop (poped s) (dNodeVec s) ([], - 1, FLT_MAX)) = Inr (tempVec, target, minDist)"
    and m4: "m4 = ?m' @ [(?N, ?nn)]"
    by (auto simp: rebuild_pairs_def Let_def nm_index_present[OF na] nm_index_present[OF nb]
        m3 m4' split: if_splits sum.splits)
  have t0: "track_ok (copy_loop (poped s) (dNodeVec s) ([], - 1, FLT_MAX))"
    by (rule copy_loop_track) (simp add: track_ok_def)
  from link_loop_track[OF lk t0] have tr: "track_ok (tempVec, target, minDist)" .
  from link_loop_fst[OF lk] obtain news where
    n1: "tempVec = fst (copy_loop (poped s) (dNodeVec s) ([], - 1, FLT_MAX)) @ news"
    and n2: "map (\<lambda>d. (first d, second d)) news
        = map (\<lambda>kv. (fst kv, nat (index ?nn)))
            (filter (\<lambda>kv. int (fst kv) \<noteq> index ?nn) (?m' @ [(?N, ?nn)]))"
    by auto
  have "\<forall>kv\<in>set ?m'. fst kv \<noteq> ?N" using below by (auto simp: list_all_iff)
  then have "filter (\<lambda>kv. fst kv \<noteq> ?N) ?m' = ?m'" by (simp only: filter_id_conv)
  then have "filter (\<lambda>kv. int (fst kv) \<noteq> index ?nn) (?m' @ [(?N, ?nn)]) = ?m'"
    by simp
  with n2 have n2': "map (\<lambda>d. (first d, second d)) news = map (\<lambda>kv. (fst kv, ?N)) ?m'"
    by simp
  from n1 have n1': "tempVec = filter (unrelated (poped s)) (dNodeVec s) @ news"
    by (simp add: copy_loop_fst)
  from na nb ab m4 n1' n2' tr show ?thesis by blast
qed

lemma removed_two:
  assumes "distinct (map fst m)" "a \<in> fst ` set m" "b \<in> fst ` set m" "a \<noteq> b"
  shows "length (filter (\<lambda>kv. fst kv \<noteq> a \<and> fst kv \<noteq> b) m) + 2 = length m"
proof -
  let ?m' = "filter (\<lambda>kv. fst kv \<noteq> a \<and> fst kv \<noteq> b) m"
  have d': "distinct (map fst ?m')" using assms(1) by (simp add: distinct_map_filter)
  have "length ?m' = card (fst ` set ?m')" using distinct_card[OF d'] by simp
  also have "fst ` set ?m' = fst ` set m - {a, b}" by auto
  also have "card (fst ` set m - {a, b}) = card (fst ` set m) - 2"
    using assms(2,3,4) by (simp add: card_Diff_insert)
  also have "card (fst ` set m) = length m" using distinct_card[OF assms(1)] by simp
  finally have "length ?m' = length m - 2" .
  moreover have "2 \<le> card (fst ` set m)"
  proof -
    have "card {a, b} \<le> card (fst ` set m)"
      using assms(2,3) by (intro card_mono) auto
    with assms(4) show ?thesis by simp
  qed
  then have "2 \<le> length m" using distinct_card[OF assms(1)] by simp
  ultimately show ?thesis by simp
qed

lemma ahc_inv_step:
  assumes inv: "ahc_inv Row s" and step: "merge_step dflt D s = Inr s'"
  shows "ahc_inv Row s'" and "length (nodeMap s') + 1 = length (nodeMap s)"
proof -
  let ?m = "nodeMap s" and ?a = "first (poped s)" and ?b = "second (poped s)"
    and ?N = "new_index s"
  let ?m' = "filter (\<lambda>kv. fst kv \<noteq> ?a \<and> fst kv \<noteq> ?b) ?m"
  from step obtain m4 tempVec target minDist where
    rb: "rebuild_pairs dflt D s = Inr (m4, tempVec, target, minDist)"
    and tg: "0 \<le> target"
    and s': "s' = \<lparr>nodeMap = m4, dNodeVec = tempVec, poped = tempVec ! nat target,
                   new_index = ?N + 1\<rparr>"
    by (auto simp: merge_step_def Let_def split: sum.splits if_splits)
  from rebuild_pairs_char[OF inv rb] obtain na nb news where
    na: "map_of ?m ?a = Some na" and nb: "map_of ?m ?b = Some nb" and ab: "?a \<noteq> ?b"
    and m4: "m4 = ?m' @ [(?N, \<lparr>index = int ?N, element = element na @ element nb\<rparr>)]"
    and tv: "tempVec = filter (unrelated (poped s)) (dNodeVec s) @ news"
    and nw: "map (\<lambda>d. (first d, second d)) news = map (\<lambda>kv. (fst kv, ?N)) ?m'"
    and tr: "track_ok (tempVec, target, minDist)"
    by blast
  from inv have dist: "distinct (map fst ?m)"
    and part: "mset (concat (map (\<lambda>kv. element (snd kv)) ?m)) = mset [0..<Row]"
    and ne: "list_all (\<lambda>kv. element (snd kv) \<noteq> []) ?m"
    and below: "list_all (\<lambda>kv. fst kv < ?N) ?m"
    and pairs: "one_entry_per_pair ?m (dNodeVec s)"
    and len: "length ?m \<le> Row" and ovf: "Row * (Row - 1) \<le> INT_MAX"
    by (simp_all add: ahc_inv_def live_elements_def)
  from below have fresh: "?N \<notin> fst ` set ?m" by (auto simp: list_all_iff)
  from na have ain: "(?a, na) \<in> set ?m" by (rule map_of_SomeD)
  from nb have bin: "(?b, nb) \<in> set ?m" by (rule map_of_SomeD)
  from ain have ak: "?a \<in> fst ` set ?m" by force
  from bin have bk: "?b \<in> fst ` set ?m" by force
  have "?N \<notin> fst ` set ?m'" using below by (auto simp: list_all_iff)
  then have c1: "distinct (map fst m4)"
    using dist by (simp add: m4 distinct_map_filter)
  have ff: "filter (\<lambda>kv. fst kv \<noteq> ?b) (filter (\<lambda>kv. fst kv \<noteq> ?a) ?m) = ?m'"
    by simp
  have "mset (concat (map (\<lambda>kv. element (snd kv)) ?m))
      = mset (element na) + mset (concat (map (\<lambda>kv. element (snd kv)) (filter (\<lambda>kv. fst kv \<noteq> ?a) ?m)))"
    by (rule elements_split[OF dist na])
  also have "mset (concat (map (\<lambda>kv. element (snd kv)) (filter (\<lambda>kv. fst kv \<noteq> ?a) ?m)))
      = mset (element nb) + mset (concat (map (\<lambda>kv. element (snd kv)) ?m'))"
    using elements_split[of "filter (\<lambda>kv. fst kv \<noteq> ?a) ?m" ?b nb] dist nb ab
    by (simp add: distinct_map_filter map_of_filter_other)
  finally have c2: "mset (concat (map (\<lambda>kv. element (snd kv)) m4)) = mset [0..<Row]"
    using part by (simp add: m4)
  from ne ain have "element na \<noteq> []" by (auto simp: list_all_iff)
  with ne have c3: "list_all (\<lambda>kv. element (snd kv) \<noteq> []) m4"
    by (auto simp: m4 list_all_iff)
  from below have c4: "list_all (\<lambda>kv. fst kv < ?N + 1) m4"
    by (auto simp: m4 list_all_iff)
  have c5: "one_entry_per_pair m4 tempVec"
    unfolding m4 tv
    by (rule rebuilt_pairs_ok[OF pairs dist fresh ak bk refl refl refl nw])
  from tr tg have "nat target < length tempVec" by (auto simp: track_ok_def)
  then have c6: "tempVec ! nat target \<in> set tempVec" by (rule nth_mem)
  from removed_two[OF dist ak bk ab] have cnt: "length m4 + 1 = length ?m" by (simp add: m4)
  with len have c7: "length m4 \<le> Row" by simp
  from c1 c2 c3 c4 c5 c6 c7 ovf show "ahc_inv Row s'"
    by (simp add: ahc_inv_def s' live_elements_def)
  from cnt show "length (nodeMap s') + 1 = length (nodeMap s)" by (simp add: s')
qed


subsection \<open>The entry state\<close>

lemma upper_pairs_distinct:
  "distinct rows \<Longrightarrow> distinct (concat (map (\<lambda>i. map (\<lambda>j. {i, j}) [Suc i..<n]) rows))"
proof (induction rows)
  case Nil
  then show ?case by simp
next
  case (Cons i rows)
  have a: "distinct (map (\<lambda>j. {i, j}) [Suc i..<n])"
    by (auto simp: distinct_map inj_on_def doubleton_eq_iff)
  have b: "set (map (\<lambda>j. {i, j}) [Suc i..<n])
             \<inter> set (concat (map (\<lambda>i. map (\<lambda>j. {i, j}) [Suc i..<n]) rows)) = {}"
  proof (rule ccontr)
    assume "set (map (\<lambda>j. {i, j}) [Suc i..<n])
             \<inter> set (concat (map (\<lambda>i. map (\<lambda>j. {i, j}) [Suc i..<n]) rows)) \<noteq> {}"
    then obtain j i' j' where "Suc i \<le> j" "i' \<in> set rows" "Suc i' \<le> j'" "{i, j} = {i', j'}"
      by auto
    moreover from Cons.prems \<open>i' \<in> set rows\<close> have "i \<noteq> i'" by auto
    ultimately show False by (auto simp: doubleton_eq_iff)
  qed
  from Cons a b show ?case by simp
qed

lemma in_concat_map: "x \<in> set (concat (map f xs)) \<longleftrightarrow> (\<exists>y\<in>set xs. x \<in> set (f y))"
  by auto

lemma in_map: "x \<in> set (map g zs) \<longleftrightarrow> (\<exists>z\<in>set zs. x = g z)"
  by auto

lemma upper_pairs_set:
  "set (concat (map (\<lambda>i. map (\<lambda>j. {i, j}) [Suc i..<n]) [0..<n - 1]))
     = {P. P \<subseteq> {0..<n} \<and> card P = 2}"
proof (rule set_eqI, rule iffI)
  fix P assume "P \<in> set (concat (map (\<lambda>i. map (\<lambda>j. {i, j}) [Suc i..<n]) [0..<n - 1]))"
  then have "\<exists>i\<in>set [0..<n - 1]. \<exists>j\<in>set [Suc i..<n]. P = {i, j}"
    by (simp only: in_concat_map in_map)
  then obtain i j where i: "i \<in> set [0..<n - 1]" and j: "j \<in> set [Suc i..<n]"
    and P: "P = {i, j}" by blast
  from j have ij: "i < j" and jn: "j < n" by simp_all
  from ij have "card {i, j} = 2" by simp
  moreover from ij jn have "{i, j} \<subseteq> {0..<n}" by simp
  ultimately show "P \<in> {P. P \<subseteq> {0..<n} \<and> card P = 2}" by (simp only: P mem_Collect_eq)
next
  fix P assume "P \<in> {P. P \<subseteq> {0..<n} \<and> card P = 2}"
  then have sub: "P \<subseteq> {0..<n}" and c: "card P = 2" by simp_all
  from c have "\<exists>x y. P = {x, y} \<and> x \<noteq> y" by (simp only: card_2_iff)
  then obtain x y where xy: "P = {x, y}" "x \<noteq> y" by blast
  from sub have xn: "x < n" and yn: "y < n" unfolding xy(1) by simp_all
  have gen: "{i, j} \<in> set (concat (map (\<lambda>i. map (\<lambda>j. {i, j}) [Suc i..<n]) [0..<n - 1]))"
    if "i < j" "j < n" for i j
  proof -
    from that have "i \<in> set [0..<n - 1]" "j \<in> set [Suc i..<n]" by simp_all
    then show ?thesis by (simp only: in_concat_map in_map) blast
  qed
  show "P \<in> set (concat (map (\<lambda>i. map (\<lambda>j. {i, j}) [Suc i..<n]) [0..<n - 1]))"
  proof (cases "x < y")
    case True
    from gen[OF True yn] show ?thesis by (simp only: xy(1))
  next
    case False
    with xy(2) have "y < x" by simp
    moreover have "{x, y} = {y, x}" by (rule insert_commute)
    ultimately show ?thesis using gen[of y x] xn by (simp only: xy(1))
  qed
qed

lemma filled_pairs:
  "map pair_of (concat (map (\<lambda>i. map (\<lambda>j. \<lparr>first = i, second = j, distance = D ! i ! j\<rparr>)
                                     [i + 1..<Row]) [0..<Row - 1]))
     = concat (map (\<lambda>i. map (\<lambda>j. {i, j}) [Suc i..<Row]) [0..<Row - 1])"
  by (simp add: map_concat comp_def pair_of_def)

lemma initial_keys:
  "fst ` set (map (\<lambda>i. (i, \<lparr>index = dflt, element = [i]\<rparr>)) [0..<Row]) = {0..<Row}"
  by force

lemma filled_one_entry_per_pair:
  "one_entry_per_pair (map (\<lambda>i. (i, \<lparr>index = dflt, element = [i]\<rparr>)) [0..<Row])
     (concat (map (\<lambda>i. map (\<lambda>j. \<lparr>first = i, second = j, distance = D ! i ! j\<rparr>)
                          [i + 1..<Row]) [0..<Row - 1]))"
  unfolding one_entry_per_pair_def live_pairs_def initial_keys filled_pairs
  by (simp only: upper_pairs_set upper_pairs_distinct distinct_upt simp_thms)

lemma filled_length:
  "length (concat (map (\<lambda>i. map (\<lambda>j. \<lparr>first = i, second = j, distance = D ! i ! j\<rparr>)
                          [i + 1..<Row]) [0..<Row - 1])) = Row * (Row - 1) div 2"
proof -
  have "distinct (map fst (map (\<lambda>i. (i, \<lparr>index = (0::int), element = [i]\<rparr>)) [0..<Row]))"
    by (simp add: comp_def)
  from pairs_length[OF filled_one_entry_per_pair this] show ?thesis by simp
qed

lemma setValue_result:
  "setValue D Row = Inr dv \<longleftrightarrow>
     Row * (Row - 1) \<le> INT_MAX
     \<and> dv = concat (map (\<lambda>i. map (\<lambda>j. \<lparr>first = i, second = j, distance = D ! i ! j\<rparr>)
                              [i + 1..<Row]) [0..<Row - 1])"
  unfolding setValue_def Let_def filled_length by auto

lemma ahc_init_inv:
  assumes sv: "setValue D Row = Inr dv" and init: "ahc_init dflt Row dv = Inr s"
  shows "ahc_inv Row s"
proof -
  let ?m = "map (\<lambda>i. (i, \<lparr>index = dflt, element = [i]\<rparr>)) [0..<Row]"
  from sv have ovf: "Row * (Row - 1) \<le> INT_MAX"
    and dv: "dv = concat (map (\<lambda>i. map (\<lambda>j. \<lparr>first = i, second = j, distance = D ! i ! j\<rparr>)
                              [i + 1..<Row]) [0..<Row - 1])"
    by (simp_all add: setValue_result)
  obtain scanned target minDist where sc: "scan_loop dv ([], - 1, FLT_MAX) = (scanned, target, minDist)"
    by (cases "scan_loop dv ([], - 1, FLT_MAX)") auto
  from init sc have tg: "0 \<le> target"
    and s: "s = \<lparr>nodeMap = ?m, dNodeVec = dv, poped = dv ! nat target, new_index = Row\<rparr>"
    by (auto simp: ahc_init_def split: if_splits)
  have "track_ok (scan_loop dv ([], - 1, FLT_MAX))"
    by (rule scan_loop_track) (simp add: track_ok_def)
  moreover have "fst (scan_loop dv ([], - 1, FLT_MAX)) = dv" by (simp add: scan_loop_fst)
  ultimately have "nat target < length dv" using sc tg by (auto simp: track_ok_def)
  then have pin: "dv ! nat target \<in> set dv" by (rule nth_mem)
  have c1: "distinct (map fst ?m)" by (simp add: comp_def)
  have "concat (map (\<lambda>kv. element (snd kv)) ?m) = [0..<Row]"
    by (induction Row) simp_all
  then have c2: "mset (concat (map (\<lambda>kv. element (snd kv)) ?m)) = mset [0..<Row]" by simp
  have c3: "list_all (\<lambda>kv. element (snd kv) \<noteq> []) ?m" by (simp add: list_all_iff)
  have c4: "list_all (\<lambda>kv. fst kv < Row) ?m" by (simp add: list_all_iff)
  have c5: "one_entry_per_pair ?m dv" unfolding dv by (rule filled_one_entry_per_pair)
  from c1 c2 c3 c4 c5 pin ovf show ?thesis
    by (simp add: ahc_inv_def s live_elements_def)
qed

lemma ahc_reach_inv:
  assumes sv: "setValue D Row = Inr dv"
  shows "ahc_reach dflt D Row dv s \<Longrightarrow> ahc_inv Row s"
proof (induction rule: ahc_reach.induct)
  case (reach_init s)
  with sv show ?case by (rule ahc_init_inv)
next
  case (reach_step s s')
  then show ?case by (auto intro: ahc_inv_step(1))
qed


text \<open>The state that the loop returns is a state of the run, with the requested number of
  live nodes.\<close>

lemma merge_loop_reach:
  assumes run: "merge_loop dflt D numberOfClusters s0 = Some r"
  shows "ahc_reach dflt D Row dv s0 \<longrightarrow>
     (\<forall>s. r = Inr s \<longrightarrow> ahc_reach dflt D Row dv s \<and> length (nodeMap s) = numberOfClusters)"
proof (rule merge_loop.raw_induct[where P = "\<lambda>dflt D numberOfClusters s0 r.
      ahc_reach dflt D Row dv s0 \<longrightarrow>
        (\<forall>s. r = Inr s \<longrightarrow> ahc_reach dflt D Row dv s \<and> length (nodeMap s) = numberOfClusters)",
      OF _ run])
  fix loop :: "int \<Rightarrow> matrix \<Rightarrow> nat \<Rightarrow> ahc_state \<Rightarrow> (error + ahc_state) option"
    and dflt D numberOfClusters s0 r
  assume IH: "\<And>dflt D numberOfClusters s0 r. loop dflt D numberOfClusters s0 = Some r \<Longrightarrow>
      ahc_reach dflt D Row dv s0 \<longrightarrow>
        (\<forall>s. r = Inr s \<longrightarrow> ahc_reach dflt D Row dv s \<and> length (nodeMap s) = numberOfClusters)"
    and body: "(case merge_step dflt D s0 of
        Inl e \<Rightarrow> Some (Inl e)
      | Inr s' \<Rightarrow>
          if length (nodeMap s') \<noteq> numberOfClusters then loop dflt D numberOfClusters s'
          else Some (Inr s')) = Some r"
  show "ahc_reach dflt D Row dv s0 \<longrightarrow>
        (\<forall>s. r = Inr s \<longrightarrow> ahc_reach dflt D Row dv s \<and> length (nodeMap s) = numberOfClusters)"
  proof
    assume r0: "ahc_reach dflt D Row dv s0"
    show "\<forall>s. r = Inr s \<longrightarrow> ahc_reach dflt D Row dv s \<and> length (nodeMap s) = numberOfClusters"
    proof (cases "merge_step dflt D s0")
      case (Inl e)
      with body show ?thesis by auto
    next
      case (Inr s')
      with r0 have rs': "ahc_reach dflt D Row dv s'" by (rule reach_step)
      show ?thesis
      proof (cases "length (nodeMap s') \<noteq> numberOfClusters")
        case True
        with Inr body have "loop dflt D numberOfClusters s' = Some r" by simp
        from IH[OF this] rs' show ?thesis by blast
      next
        case False
        with Inr body rs' show ?thesis by auto
      qed
    qed
  qed
qed

subsection \<open>Sorting and labelling\<close>

lemma node_insort_mset: "mset (node_insort x xs) = add_mset x (mset xs)"
  by (induction xs) simp_all

lemma node_sort_mset: "mset (foldr node_insort xs []) = mset xs"
  by (induction xs) (simp_all add: node_insort_mset)

lemma concat_elements_mset:
  fixes xs ys :: "AHC_node list"
  shows "mset xs = mset ys \<Longrightarrow> mset (concat (map element xs)) = mset (concat (map element ys))"
proof -
  assume h: "mset xs = mset ys"
  have e: "mset (concat (map element zs)) = (\<Sum>z\<in>#mset zs. mset (element z))"
    for zs :: "AHC_node list"
    by (induction zs) simp_all
  show ?thesis by (simp only: e h)
qed

lemma setLabel_loop_members:
  "setLabel_loop nodeVec g (nv, st, rc) = Inr (nv', st', rc') \<Longrightarrow>
     \<forall>i. g \<le> i \<and> i < length nv \<longrightarrow> nv ! i = [] \<Longrightarrow>
     mset (concat nv') = mset (concat nv) + mset (concat (map element nodeVec))"
proof (induction nodeVec arbitrary: g nv st rc)
  case Nil
  then show ?case by simp
next
  case (Cons node rest)
  from Cons.prems(1) have g: "g < length nv"
    and r: "setLabel_loop rest (g + 1)
              (nv[g := element node], st[g := length (element node)],
               label_loop (element node) g rc) = Inr (nv', st', rc')"
    by (auto split: if_splits)
  from Cons.prems(2) g have e: "nv ! g = []" by simp
  have "\<forall>i. g + 1 \<le> i \<and> i < length (nv[g := element node]) \<longrightarrow> nv[g := element node] ! i = []"
    using Cons.prems(2) by simp
  from Cons.IH[OF r this]
  have "mset (concat nv') = mset (concat (nv[g := element node])) + mset (concat (map element rest))" .
  moreover have "mset (concat (nv[g := element node])) = mset (concat nv) + mset (element node)"
    using concat_update_append[OF g, of "element node"] e by simp
  ultimately show ?case by simp
qed

subsection \<open>The membership lists of a k-means round\<close>

lemma nearest_loop_below:
  "nearest_loop temp_of [0..<Cluster] d None = Some k \<Longrightarrow> k < Cluster"
  by (drule nearest_loop_range) auto

lemma assign_rows_members:
  "assign_rows E dis points Cluster rows st = Inr st' \<Longrightarrow> length (neighborVec st) = Cluster \<Longrightarrow>
     mset (concat (neighborVec st')) = mset (concat (neighborVec st)) + mset rows"
proof (induction rows arbitrary: st)
  case Nil
  then show ?case by simp
next
  case (Cons i rows)
  from Cons.prems(1) obtain st1 where a: "assign_row E dis points Cluster i st = Inr st1"
    and b: "assign_rows E dis points Cluster rows st1 = Inr st'"
    by (auto split: sum.splits)
  from a obtain c where c: "nearest_loop (\<lambda>j. dis (clusterCenter st ! j) i) [0..<Cluster] (Finite FLT_MAX) None = Some c"
    and nv: "neighborVec st1 = (neighborVec st)[c := neighborVec st ! c @ [i]]"
    by (auto simp: assign_row_def split: option.splits)
  from nearest_loop_below[OF c] Cons.prems(2) have "c < length (neighborVec st)" by simp
  from concat_update_append[OF this, of "[i]"] nv
  have "mset (concat (neighborVec st1)) = mset (concat (neighborVec st)) + {#i#}" by simp
  moreover from nv Cons.prems(2) have "length (neighborVec st1) = Cluster" by simp
  from Cons.IH[OF b this]
  have "mset (concat (neighborVec st')) = mset (concat (neighborVec st1)) + mset rows" .
  ultimately show ?case by simp
qed

lemma kmeans_body_partition:
  assumes "kmeans_body E dis points Row Cluster Dim st = Inr st'"
  shows "is_partition Row (neighborVec st')"
proof -
  let ?st0 = "st\<lparr>storage := replicate Cluster 0,
                  centerTemp := replicate Cluster (replicate Dim (Finite 0)),
                  neighborVec := replicate Cluster []\<rparr>"
  from assms obtain st1 where
    a: "assign_rows E dis points Cluster [0..<Row] ?st0 = Inr st1"
    and b: "st' = (update_loop E [0..<Cluster] (st1\<lparr>moving := Finite FLT_MIN\<rparr>))
                    \<lparr>tag := tag (update_loop E [0..<Cluster] (st1\<lparr>moving := Finite FLT_MIN\<rparr>)) + 1\<rparr>"
    by (auto simp: kmeans_body_def Let_def split: sum.splits)
  have "concat (replicate Cluster ([]::nat list)) = []" by (induction Cluster) simp_all
  with assign_rows_members[OF a] have "mset (concat (neighborVec st1)) = mset [0..<Row]" by simp
  moreover from b have "neighborVec st' = neighborVec st1" by (simp add: update_loop_frame)
  ultimately show ?thesis by (simp add: mset_partition)
qed

lemma kmeans_loop_last_body:
  "kmeans_loop E dis points Row Cluster Dim st0 = Inr st \<Longrightarrow>
     \<exists>s. kmeans_body E dis points Row Cluster Dim s = Inr st"
proof (induction E dis points Row Cluster Dim st0 rule: kmeans_loop.induct)
  case (1 E dis points Row Cluster Dim st0)
  from "1.prems" obtain st1 where body: "kmeans_body E dis points Row Cluster Dim st0 = Inr st1"
    by (subst (asm) kmeans_loop.simps) (auto split: sum.splits)
  show ?case
  proof (cases "loop_continues (moving st0) st1")
    case True
    with "1.prems" body have "kmeans_loop E dis points Row Cluster Dim st1 = Inr st"
      by (subst (asm) kmeans_loop.simps) simp
    from "1.IH"[OF body True this] show ?thesis .
  next
    case False
    with "1.prems" body have "st = st1" by (subst (asm) kmeans_loop.simps) simp
    with body show ?thesis by blast
  qed
qed

lemma perform_AHC_clusters_partition:
  assumes "perform_AHC_clusters dflt cArray Row Cluster = Some (Inr (nv, st, rc))"
  shows "is_partition Row nv"
proof -
  let ?D = "reduced_dist_matrix_of cArray Row"
  from assms obtain dv nodeVec where sv: "setValue ?D Row = Inr dv"
    and hm: "hierarchicalMerging dflt ?D Row Cluster dv = Some (Inr nodeVec)"
    and sl: "setLabel nodeVec Row Cluster = Inr (nv, st, rc)"
    by (auto simp: perform_AHC_clusters_def Let_def split: sum.splits option.splits)
  from hm obtain s0 s where init: "ahc_init dflt Row dv = Inr s0"
    and loop: "merge_loop dflt ?D Cluster s0 = Some (Inr s)"
    and nodes: "nodeVec = foldr node_insort (map snd (nodeMap s)) []"
    by (auto simp: hierarchicalMerging_def split: sum.splits option.splits)
  from init have "ahc_reach dflt ?D Row dv s0" by (rule reach_init)
  with merge_loop_reach[OF loop, of Row dv] have "ahc_reach dflt ?D Row dv s" by simp
  from ahc_reach_inv[OF sv this]
  have "mset (concat (map element (map snd (nodeMap s)))) = mset [0..<Row]"
    by (simp add: ahc_inv_def live_elements_def comp_def)
  moreover have "mset nodeVec = mset (map snd (nodeMap s))"
    unfolding nodes by (rule node_sort_mset)
  ultimately have m: "mset (concat (map element nodeVec)) = mset [0..<Row]"
    using concat_elements_mset[of nodeVec "map snd (nodeMap s)"] by simp
  have "concat (replicate Cluster ([]::nat list)) = []" by (induction Cluster) simp_all
  moreover from sl have "mset (concat nv) = mset (concat (replicate Cluster ([]::nat list)))
      + mset (concat (map element nodeVec))"
    unfolding setLabel_def by (rule setLabel_loop_members) simp
  ultimately show ?thesis using m by (simp add: mset_partition)
qed

text \<open>
  C4.  The membership lists with which a run of either k-means engine ends, and those
  that \<open>perform_AHC\<close> gets from the merger through \<open>setLabel\<close>, partition \<open>{0,...,Row-1}\<close>;
  so do the membership lists of the live nodes in every state of a run of the merger.
  (A run that ends in an error of the model has no lists.)
\<close>

theorem C4_membership_lists_partition:
  "(performPC_KMeans_loop E cArray Row PC_Number Cluster seeds = Inr st
      \<longrightarrow> is_partition Row (neighborVec st))
   \<and> (performFullK_Means_loop E getDisimilarity data Row Column Cluster seeds = Inr st'
      \<longrightarrow> is_partition Row (neighborVec st'))
   \<and> (perform_AHC_clusters dflt coordinates Row Cluster = Some (Inr (nv, sizes, labels))
      \<longrightarrow> is_partition Row nv)
   \<and> (setValue D Row = Inr dv \<and> ahc_reach dflt D Row dv s
      \<longrightarrow> is_partition Row (live_elements s))"
proof (intro conjI impI)
  assume "performPC_KMeans_loop E cArray Row PC_Number Cluster seeds = Inr st"
  then obtain s0 where "kmeans_body E (\<lambda>center i. row_dist E (cArray ! i) center) cArray Row
      Cluster PC_Number s0 = Inr st"
    unfolding performPC_KMeans_loop_def by (blast dest: kmeans_loop_last_body)
  then show "is_partition Row (neighborVec st)" by (rule kmeans_body_partition)
next
  assume "performFullK_Means_loop E getDisimilarity data Row Column Cluster seeds = Inr st'"
  then obtain s0 where "kmeans_body E getDisimilarity data Row Cluster Column s0 = Inr st'"
    unfolding performFullK_Means_loop_def by (blast dest: kmeans_loop_last_body)
  then show "is_partition Row (neighborVec st')" by (rule kmeans_body_partition)
next
  assume "perform_AHC_clusters dflt coordinates Row Cluster = Some (Inr (nv, sizes, labels))"
  then show "is_partition Row nv" by (rule perform_AHC_clusters_partition)
next
  assume "setValue D Row = Inr dv \<and> ahc_reach dflt D Row dv s"
  then have "ahc_inv Row s" by (blast intro: ahc_reach_inv)
  then show "is_partition Row (live_elements s)" by (simp add: ahc_inv_def mset_partition)
qed

text \<open>
  C9.  \<open>setValue\<close> yields \<open>Row*(Row-1)/2\<close> entries, one per unordered pair of the initial
  nodes.  In every state of a run the candidate pairs hold one entry per unordered pair of
  live nodes, \<open>n*(n-1)/2\<close> for \<open>n\<close> live nodes.  A round rebuilds them as the old entries
  that touch neither merged node, unchanged and in their order, followed by one entry
  (node, new node) for every live node other than the new one; these fill the vector of
  \<open>n*(n-1)/2\<close> entries exactly.  (\<open>setValue\<close> has no result when \<open>Row*(Row-1)\<close> leaves the
  range of \<open>int\<close>.)
\<close>

theorem C9_one_candidate_per_live_pair:
  "(setValue D Row = Inr dv \<longrightarrow>
      length dv = Row * (Row - 1) div 2
      \<and> one_entry_per_pair (map (\<lambda>i. (i, \<lparr>index = dflt, element = [i]\<rparr>)) [0..<Row]) dv)
   \<and> (setValue D Row = Inr dv \<and> ahc_reach dflt D Row dv s \<longrightarrow>
      one_entry_per_pair (nodeMap s) (dNodeVec s)
      \<and> length (dNodeVec s) = length (nodeMap s) * (length (nodeMap s) - 1) div 2)
   \<and> (setValue D Row = Inr dv \<and> ahc_reach dflt D Row dv s
        \<and> rebuild_pairs dflt D s = Inr (m4, tempVec, target, minDist) \<longrightarrow>
      length tempVec = length m4 * (length m4 - 1) div 2
      \<and> one_entry_per_pair m4 tempVec
      \<and> take (length (filter (unrelated (poped s)) (dNodeVec s))) tempVec
          = filter (unrelated (poped s)) (dNodeVec s)
      \<and> map (\<lambda>d. (first d, second d))
            (drop (length (filter (unrelated (poped s)) (dNodeVec s))) tempVec)
          = map (\<lambda>k. (k, new_index s)) (filter (\<lambda>k. k \<noteq> new_index s) (map fst m4)))"
proof (intro conjI impI)
  assume sv: "setValue D Row = Inr dv"
  then have dv: "dv = concat (map (\<lambda>i. map (\<lambda>j. \<lparr>first = i, second = j, distance = D ! i ! j\<rparr>)
                              [i + 1..<Row]) [0..<Row - 1])"
    by (simp add: setValue_result)
  show "length dv = Row * (Row - 1) div 2" unfolding dv by (rule filled_length)
  show "one_entry_per_pair (map (\<lambda>i. (i, \<lparr>index = dflt, element = [i]\<rparr>)) [0..<Row]) dv"
    unfolding dv by (rule filled_one_entry_per_pair)
next
  assume "setValue D Row = Inr dv \<and> ahc_reach dflt D Row dv s"
  then have inv: "ahc_inv Row s" by (blast intro: ahc_reach_inv)
  then show p: "one_entry_per_pair (nodeMap s) (dNodeVec s)" by (simp add: ahc_inv_def)
  from inv have "distinct (map fst (nodeMap s))" by (simp add: ahc_inv_def)
  from pairs_length[OF p this]
  show "length (dNodeVec s) = length (nodeMap s) * (length (nodeMap s) - 1) div 2" .
next
  assume h: "setValue D Row = Inr dv \<and> ahc_reach dflt D Row dv s
        \<and> rebuild_pairs dflt D s = Inr (m4, tempVec, target, minDist)"
  then have inv: "ahc_inv Row s" by (blast intro: ahc_reach_inv)
  from h have rb: "rebuild_pairs dflt D s = Inr (m4, tempVec, target, minDist)" by simp
  let ?m = "nodeMap s" and ?a = "first (poped s)" and ?b = "second (poped s)"
    and ?N = "new_index s"
  let ?m' = "filter (\<lambda>kv. fst kv \<noteq> ?a \<and> fst kv \<noteq> ?b) ?m"
  let ?old = "filter (unrelated (poped s)) (dNodeVec s)"
  from rebuild_pairs_char[OF inv rb] obtain na nb news where
    na: "map_of ?m ?a = Some na" and nb: "map_of ?m ?b = Some nb" and ab: "?a \<noteq> ?b"
    and m4: "m4 = ?m' @ [(?N, \<lparr>index = int ?N, element = element na @ element nb\<rparr>)]"
    and tv: "tempVec = ?old @ news"
    and nw: "map (\<lambda>d. (first d, second d)) news = map (\<lambda>kv. (fst kv, ?N)) ?m'"
    by blast
  from inv have dist: "distinct (map fst ?m)"
    and below: "list_all (\<lambda>kv. fst kv < ?N) ?m"
    and pairs: "one_entry_per_pair ?m (dNodeVec s)"
    by (simp_all add: ahc_inv_def)
  from below have fresh: "?N \<notin> fst ` set ?m" by (auto simp: list_all_iff)
  from na have "(?a, na) \<in> set ?m" by (rule map_of_SomeD)
  then have ak: "?a \<in> fst ` set ?m" by force
  from nb have "(?b, nb) \<in> set ?m" by (rule map_of_SomeD)
  then have bk: "?b \<in> fst ` set ?m" by force
  show p4: "one_entry_per_pair m4 tempVec"
    unfolding m4 tv by (rule rebuilt_pairs_ok[OF pairs dist fresh ak bk refl refl refl nw])
  have "?N \<notin> fst ` set ?m'" using below by (auto simp: list_all_iff)
  then have d4: "distinct (map fst m4)" using dist by (simp add: m4 distinct_map_filter)
  from pairs_length[OF p4 d4] show "length tempVec = length m4 * (length m4 - 1) div 2" .
  show "take (length ?old) tempVec = ?old" by (simp add: tv)
  have "\<forall>kv\<in>set ?m'. fst kv \<noteq> ?N" using below by (auto simp: list_all_iff)
  then have "filter (\<lambda>k. k \<noteq> ?N) (map fst ?m') = map fst ?m'"
    by (simp only: filter_id_conv set_map) simp
  then have "filter (\<lambda>k. k \<noteq> ?N) (map fst m4) = map fst ?m'" by (simp add: m4)
  with nw show "map (\<lambda>d. (first d, second d)) (drop (length ?old) tempVec)
          = map (\<lambda>k. (k, ?N)) (filter (\<lambda>k. k \<noteq> ?N) (map fst m4))"
    by (simp add: tv comp_def)
qed


text \<open>The three points of the line again, merged down to two clusters.\<close>

lemma line3_dist: "reduced_dist_matrix_of [[0], [1], [3]] 3 = [[0, 1, 3], [1, 0, 2], [3, 2, 0]]"
  by (simp add: reduced_dist_matrix_of_def norm_f_single vsub_def upt_rec)

lemma line3_loop2:
  "merge_loop dflt [[0, 1, 3], [1, 0, 2], [3, 2, 0]] 2
        \<lparr>nodeMap = [(0, \<lparr>index = dflt, element = [0]\<rparr>), (1, \<lparr>index = dflt, element = [1]\<rparr>),
                    (2, \<lparr>index = dflt, element = [2]\<rparr>)],
         dNodeVec = [\<lparr>first = 0, second = 1, distance = 1\<rparr>, \<lparr>first = 0, second = 2, distance = 3\<rparr>,
                     \<lparr>first = 1, second = 2, distance = 2\<rparr>],
         poped = \<lparr>first = 0, second = 1, distance = 1\<rparr>, new_index = 3\<rparr>
     = Some (Inr \<lparr>nodeMap = [(2, \<lparr>index = dflt, element = [2]\<rparr>), (3, \<lparr>index = 3, element = [0, 1]\<rparr>)],
            dNodeVec = [\<lparr>first = 2, second = 3, distance = 1 / 2\<rparr>],
            poped = \<lparr>first = 2, second = 3, distance = 1 / 2\<rparr>, new_index = 4\<rparr>)"
  by (subst merge_loop.simps) (simp add: line3_round1 del: One_nat_def)

lemma line3_clusters:
  "perform_AHC_clusters dflt [[0], [1], [3]] 3 2 = Some (Inr ([[2], [0, 1]], [1, 2], [1, 1, 0]))"
proof -
  have hm: "hierarchicalMerging dflt [[0, 1, 3], [1, 0, 2], [3, 2, 0]] 3 2
        [\<lparr>first = 0, second = 1, distance = 1\<rparr>, \<lparr>first = 0, second = 2, distance = 3\<rparr>,
         \<lparr>first = 1, second = 2, distance = 2\<rparr>]
      = Some (Inr [\<lparr>index = dflt, element = [2]\<rparr>, \<lparr>index = 3, element = [0, 1]\<rparr>])"
    unfolding hierarchicalMerging_def
    by (simp add: line3_init line3_loop2 node_less_def del: One_nat_def)
  have sl: "setLabel [\<lparr>index = dflt, element = [2]\<rparr>, \<lparr>index = 3, element = [0, 1]\<rparr>] 3 2
      = Inr ([[2], [0, 1]], [1, 2], [1, 1, 0])"
    by (simp add: setLabel_def eval_nat_numeral)
  show ?thesis
    unfolding perform_AHC_clusters_def line3_dist Let_def
    by (simp add: line3_init hm sl del: One_nat_def)
qed

lemma line3_reach:
  "ahc_reach dflt [[0, 1, 3], [1, 0, 2], [3, 2, 0]] 3
     [\<lparr>first = 0, second = 1, distance = 1\<rparr>, \<lparr>first = 0, second = 2, distance = 3\<rparr>,
      \<lparr>first = 1, second = 2, distance = 2\<rparr>]
     \<lparr>nodeMap = [(2, \<lparr>index = dflt, element = [2]\<rparr>), (3, \<lparr>index = 3, element = [0, 1]\<rparr>)],
      dNodeVec = [\<lparr>first = 2, second = 3, distance = 1 / 2\<rparr>],
      poped = \<lparr>first = 2, second = 3, distance = 1 / 2\<rparr>, new_index = 4\<rparr>"
  by (rule reach_step[OF reach_init[OF conjunct2[OF line3_init]] line3_round1])

theorem C4_witness:
  "performPC_KMeans_loop eigen32 [[Finite 0], [Finite 2]] 2 1 2 [[Finite 0], [Finite 5]]
     = Inr \<lparr>clusterCenter = [[Finite 1], [Finite 5]], moving = Finite FLT_MIN, tag = 2,
            storage = [2, 0], neighborVec = [[0, 1], []], recorder = [0, 0],
            centerTemp = [[Finite 1], [Finite 0]]\<rparr>
   \<and> performFullK_Means_loop eigen32
        (\<lambda>center i. row_dist eigen32 ([[Finite 0], [Finite 2]] ! i) center)
        [[Finite 0], [Finite 2]] 2 1 2 [[Finite 0], [Finite 5]]
     = Inr \<lparr>clusterCenter = [[Finite 1], [Finite 5]], moving = Finite FLT_MIN, tag = 2,
            storage = [2, 0], neighborVec = [[0, 1], []], recorder = [0, 0],
            centerTemp = [[Finite 1], [Finite 0]]\<rparr>
   \<and> is_partition 2 [[0, 1], []]
   \<and> perform_AHC_clusters (- 1) [[0], [1], [3]] 3 2 = Some (Inr ([[2], [0, 1]], [1, 2], [1, 1, 0]))
   \<and> is_partition 3 [[2], [0, 1]]
   \<and> setValue [[0, 1, 3], [1, 0, 2], [3, 2, 0]] 3
     = Inr [\<lparr>first = 0, second = 1, distance = 1\<rparr>, \<lparr>first = 0, second = 2, distance = 3\<rparr>,
            \<lparr>first = 1, second = 2, distance = 2\<rparr>]
   \<and> ahc_reach (- 1) [[0, 1, 3], [1, 0, 2], [3, 2, 0]] 3
       [\<lparr>first = 0, second = 1, distance = 1\<rparr>, \<lparr>first = 0, second = 2, distance = 3\<rparr>,
        \<lparr>first = 1, second = 2, distance = 2\<rparr>]
       \<lparr>nodeMap = [(2, \<lparr>index = - 1, element = [2]\<rparr>), (3, \<lparr>index = 3, element = [0, 1]\<rparr>)],
        dNodeVec = [\<lparr>first = 2, second = 3, distance = 1 / 2\<rparr>],
        poped = \<lparr>first = 2, second = 3, distance = 1 / 2\<rparr>, new_index = 4\<rparr>
   \<and> is_partition 3 (live_elements
       \<lparr>nodeMap = [(2, \<lparr>index = - 1, element = [2]\<rparr>), (3, \<lparr>index = 3, element = [0, 1]\<rparr>)],
        dNodeVec = [\<lparr>first = 2, second = 3, distance = 1 / 2\<rparr>],
        poped = \<lparr>first = 2, second = 3, distance = 1 / 2\<rparr>, new_index = 4\<rparr>)"
proof -
  let ?S = "\<lparr>clusterCenter = [[Finite 1], [Finite 5]], moving = Finite FLT_MIN, tag = 2,
            storage = [2, 0], neighborVec = [[0, 1], []], recorder = [0, 0],
            centerTemp = [[Finite 1], [Finite 0]]\<rparr>"
  let ?P = "[[Finite 0], [Finite 2]]"
  let ?dis = "\<lambda>center i. row_dist eigen32 (?P ! i) center"
  let ?D = "[[0, 1, 3], [1, 0, 2], [3, 2, 0::real]]"
  let ?dv = "[\<lparr>first = 0, second = 1, distance = 1\<rparr>, \<lparr>first = 0, second = 2, distance = 3\<rparr>,
            \<lparr>first = 1, second = 2, distance = 2::real\<rparr>]"
  let ?s1 = "\<lparr>nodeMap = [(2, \<lparr>index = - 1, element = [2]\<rparr>), (3, \<lparr>index = 3, element = [0, 1]\<rparr>)],
        dNodeVec = [\<lparr>first = 2, second = 3, distance = 1 / 2\<rparr>],
        poped = \<lparr>first = 2, second = 3, distance = 1 / 2\<rparr>, new_index = 4\<rparr>"
  have pc: "performPC_KMeans_loop eigen32 ?P 2 1 2 [[Finite 0], [Finite 5]] = Inr ?S"
    unfolding performPC_KMeans_loop_def by (rule two_points_loop)
  have full: "performFullK_Means_loop eigen32 ?dis ?P 2 1 2 [[Finite 0], [Finite 5]] = Inr ?S"
    unfolding performFullK_Means_loop_def by (rule two_points_loop)
  have ahc: "perform_AHC_clusters (- 1) [[0], [1], [3]] 3 2
      = Some (Inr ([[2], [0, 1]], [1, 2], [1, 1, 0]))"
    by (rule line3_clusters)
  have sv: "setValue ?D 3 = Inr ?dv" by (rule conjunct1[OF line3_init])
  have rc: "ahc_reach (- 1) ?D 3 ?dv ?s1" by (rule line3_reach)
  from C4_membership_lists_partition[where E = eigen32 and cArray = ?P and Row = 2
      and PC_Number = 1 and Cluster = 2 and seeds = "[[Finite 0], [Finite 5]]" and st = ?S
      and getDisimilarity = ?dis and data = ?P and Column = 1 and st' = ?S] pc full
  have k: "is_partition 2 [[0, 1], []]" by simp
  from C4_membership_lists_partition[where coordinates = "[[0], [1], [3]]" and Row = 3
      and Cluster = 2 and dflt = "- 1" and nv = "[[2], [0, 1]]" and sizes = "[1, 2]"
      and labels = "[1, 1, 0]" and D = ?D and dv = ?dv and s = ?s1] ahc sv rc
  have a: "is_partition 3 [[2], [0, 1]] \<and> is_partition 3 (live_elements ?s1)" by simp
  from pc full ahc sv rc k a show ?thesis by simp
qed

theorem C9_witness:
  "setValue [[0, 1, 3], [1, 0, 2], [3, 2, 0]] 3
     = Inr [\<lparr>first = 0, second = 1, distance = 1\<rparr>, \<lparr>first = 0, second = 2, distance = 3\<rparr>,
            \<lparr>first = 1, second = 2, distance = 2\<rparr>]
   \<and> length [\<lparr>first = 0, second = 1, distance = 1\<rparr>, \<lparr>first = 0, second = 2, distance = 3\<rparr>,
              \<lparr>first = 1, second = 2, distance = 2::real\<rparr>] = 3 * (3 - 1) div 2
   \<and> ahc_reach (- 1) [[0, 1, 3], [1, 0, 2], [3, 2, 0]] 3
       [\<lparr>first = 0, second = 1, distance = 1\<rparr>, \<lparr>first = 0, second = 2, distance = 3\<rparr>,
        \<lparr>first = 1, second = 2, distance = 2\<rparr>]
       \<lparr>nodeMap = [(0, \<lparr>index = - 1, element = [0]\<rparr>), (1, \<lparr>index = - 1, element = [1]\<rparr>),
                   (2, \<lparr>index = - 1, element = [2]\<rparr>)],
        dNodeVec = [\<lparr>first = 0, second = 1, distance = 1\<rparr>, \<lparr>first = 0, second = 2, distance = 3\<rparr>,
                    \<lparr>first = 1, second = 2, distance = 2\<rparr>],
        poped = \<lparr>first = 0, second = 1, distance = 1\<rparr>, new_index = 3\<rparr>
   \<and> rebuild_pairs (- 1) [[0, 1, 3], [1, 0, 2], [3, 2, 0]]
       \<lparr>nodeMap = [(0, \<lparr>index = - 1, element = [0]\<rparr>), (1, \<lparr>index = - 1, element = [1]\<rparr>),
                   (2, \<lparr>index = - 1, element = [2]\<rparr>)],
        dNodeVec = [\<lparr>first = 0, second = 1, distance = 1\<rparr>, \<lparr>first = 0, second = 2, distance = 3\<rparr>,
                    \<lparr>first = 1, second = 2, distance = 2\<rparr>],
        poped = \<lparr>first = 0, second = 1, distance = 1\<rparr>, new_index = 3\<rparr>
     = Inr ([(2, \<lparr>index = - 1, element = [2]\<rparr>), (3, \<lparr>index = 3, element = [0, 1]\<rparr>)],
            [\<lparr>first = 2, second = 3, distance = 1 / 2\<rparr>], 0, 1 / 2)
   \<and> one_entry_per_pair [(2, \<lparr>index = - 1, element = [2]\<rparr>), (3, \<lparr>index = 3, element = [0, 1]\<rparr>)]
        [\<lparr>first = 2, second = 3, distance = 1 / 2\<rparr>]"
proof -
  let ?D = "[[0, 1, 3], [1, 0, 2], [3, 2, 0::real]]"
  let ?dv = "[\<lparr>first = 0, second = 1, distance = 1\<rparr>, \<lparr>first = 0, second = 2, distance = 3\<rparr>,
            \<lparr>first = 1, second = 2, distance = 2::real\<rparr>]"
  let ?s0 = "\<lparr>nodeMap = [(0, \<lparr>index = - 1, element = [0]\<rparr>), (1, \<lparr>index = - 1, element = [1]\<rparr>),
                   (2, \<lparr>index = - 1, element = [2]\<rparr>)],
        dNodeVec = ?dv, poped = \<lparr>first = 0, second = 1, distance = 1\<rparr>, new_index = 3\<rparr>"
  let ?m4 = "[(2, \<lparr>index = - 1, element = [2]\<rparr>), (3::nat, \<lparr>index = 3, element = [0, 1]\<rparr>)]"
  let ?tv = "[\<lparr>first = 2, second = 3, distance = 1 / 2 :: real\<rparr>]"
  have sv: "setValue ?D 3 = Inr ?dv" by (rule conjunct1[OF line3_init])
  have rc: "ahc_reach (- 1) ?D 3 ?dv ?s0" by (rule reach_init[OF conjunct2[OF line3_init]])
  have rb: "rebuild_pairs (- 1) ?D ?s0 = Inr (?m4, ?tv, 0, 1 / 2)"
    by (simp add: ahc_eval upt_rec)
  from C9_one_candidate_per_live_pair[where D = ?D and Row = 3 and dv = ?dv and dflt = "- 1"
      and s = ?s0 and ?m4.0 = ?m4 and tempVec = ?tv and target = 0 and minDist = "1 / 2"] sv rc rb
  show ?thesis by simp
qed



section \<open>Properties of the balanced entropy\<close>







lemma multimap_insert_mset: "mset (multimap_insert kv m) = add_mset kv (mset m)"
  by (induction m) simp_all

text \<open>The loop adds, for the non-empty clusters in ascending order, the \<open>float\<close> product
  \<open>p * log2f(p)\<close> to the running sum, counts them, and collects the sizes.\<close>

lemma entropy_loop_result:
  "entropy_loop log2f rows st Row (g, e, n) = (g', e', n') \<Longrightarrow>
     e' = foldl (\<lambda>entropy i. fadd entropy
                    (fmul (fdiv (float_of_int (st ! i)) (float_of_int Row))
                          (log2f (fdiv (float_of_int (st ! i)) (float_of_int Row)))))
                e (filter (\<lambda>i. 0 < st ! i) rows)
     \<and> n' = n + length (filter (\<lambda>i. 0 < st ! i) rows)
     \<and> mset g' = mset g + mset (map (\<lambda>i. (st ! i, i)) rows)"
proof (induction rows arbitrary: g e n)
  case Nil
  then show ?case by simp
next
  case (Cons i rows)
  show ?case
  proof (cases "0 < st ! i")
    case True
    with Cons.prems have "entropy_loop log2f rows st Row
        (multimap_insert (st ! i, i) g,
         fadd e (fmul (fdiv (float_of_int (st ! i)) (float_of_int Row))
                      (log2f (fdiv (float_of_int (st ! i)) (float_of_int Row)))), n + 1)
        = (g', e', n')"
      by (simp add: Let_def)
    from Cons.IH[OF this] True show ?thesis by (simp add: multimap_insert_mset)
  next
    case False
    with Cons.prems have "entropy_loop log2f rows st Row (multimap_insert (st ! i, i) g, e, n)
        = (g', e', n')"
      by (simp add: Let_def)
    from Cons.IH[OF this] False show ?thesis by (simp add: multimap_insert_mset)
  qed
qed

lemma order_loop_count:
  "snd (order_loop gm (io, k)) = k + length (filter (\<lambda>it. 0 < fst it) gm)"
  by (induction gm arbitrary: io k) simp_all

lemma positive_count_mset:
  assumes "mset gm = mset (map (\<lambda>i. (st ! i, i)) rows)"
  shows "length (filter (\<lambda>it. 0 < fst it) gm) = length (filter (\<lambda>i. 0 < (st :: nat list) ! i) rows)"
proof -
  have "length (filter (\<lambda>it. 0 < fst it) gm) = size (mset (filter (\<lambda>it. 0 < fst it) gm))"
    by (simp only: size_mset)
  also have "\<dots> = size (filter_mset (\<lambda>it. 0 < fst it) (mset gm))" by (simp only: mset_filter)
  also have "\<dots> = size (filter_mset (\<lambda>it. 0 < fst it) (mset (map (\<lambda>i. (st ! i, i)) rows)))"
    by (simp only: assms)
  also have "\<dots> = size (mset (filter (\<lambda>it. 0 < fst it) (map (\<lambda>i. (st ! i, i)) rows)))"
    by (simp only: mset_filter)
  also have "\<dots> = length (filter (\<lambda>it. 0 < fst it) (map (\<lambda>i. (st ! i, i)) rows))"
    by (simp only: size_mset)
  also have "\<dots> = length (filter (\<lambda>i. 0 < st ! i) rows)"
    by (simp add: filter_map comp_def)
  finally show ?thesis .
qed





subsection \<open>The conversion of a count\<close>











subsection \<open>The entropy of given cluster sizes\<close>




subsection \<open>The cluster sizes of a finished run\<close>












section \<open>Properties of the raw-space finaliser\<close>

lemma those_length: "those xs = Some ys \<Longrightarrow> length ys = length xs"
  by (induction xs arbitrary: ys) (auto split: option.splits)

lemma set_group_length:
  "set_group increasingOrder st rc Row = Inr (labels, sizes) \<Longrightarrow>
     length labels = Row \<and> length sizes = Row"
  by (auto simp: set_group_def split: option.splits dest: those_length)

lemma representative_loop_length:
  "representative_loop dis st increasingOrder rows (idx, c, f) = Inr (idx', c', f') \<Longrightarrow>
     length c' = length c + length (filter (\<lambda>i. 0 < storage st ! i) rows)
     \<and> length f' = length f + length (filter (\<lambda>i. 0 < storage st ! i) rows)"
proof (induction rows arbitrary: idx c f)
  case Nil
  then show ?case by auto
next
  case (Cons i rows)
  obtain a b where idx: "idx = (a, b)" by (cases idx)
  show ?case
  proof (cases "0 < storage st ! i")
    case False
    with Cons.prems idx have "representative_loop dis st increasingOrder rows (idx, c, f)
        = Inr (idx', c', f')" by simp
    from Cons.IH[OF this] False show ?thesis by simp
  next
    case True
    with Cons.prems idx obtain label idx1 c1 f1 where
      "representative_loop dis st increasingOrder rows (idx1, c1, f1) = Inr (idx', c', f')"
      "length c1 = length c + 1" "length f1 = length f + 1"
      by (auto simp: Let_def split: option.splits)
    from Cons.IH[OF this(1)] this(2,3) True show ?thesis by simp
  qed
qed

lemma massCenter_loop_length:
  "massCenter_loop st increasingOrder Column rows mc = Inr mc' \<Longrightarrow>
     length mc' = length mc + length (filter (\<lambda>i. 0 < storage st ! i) rows)"
proof (induction rows arbitrary: mc)
  case Nil
  then show ?case by simp
next
  case (Cons i rows)
  show ?case
  proof (cases "0 < storage st ! i")
    case False
    with Cons.prems have "massCenter_loop st increasingOrder Column rows mc = Inr mc'" by simp
    from Cons.IH[OF this] False show ?thesis by simp
  next
    case True
    with Cons.prems obtain mc1 where
      "massCenter_loop st increasingOrder Column rows mc1 = Inr mc'" "length mc1 = length mc + 1"
      by (auto split: option.splits)
    from Cons.IH[OF this(1)] this(2) True show ?thesis by simp
  qed
qed

text \<open>
  C10.  When the run of \<open>performFullK_MeansByClusters\<close> ends with at most one non-empty
  cluster (\<open>groupNo <= 1\<close>), the labels and sizes of all \<open>Row\<close> curves and one closest
  representative, one furthest representative and one mean centroid per non-empty
  cluster have been filled, and nothing follows: no access to the distance-matrix file,
  no call of the Silhouette or the Validity evaluator, no entry in the time recorder, no
  readme.  With two or more non-empty clusters the evaluation follows.
\<close>

theorem C10_single_group_returns_early:
  "(performFullK_MeansByClusters E log2f getDisimilarity data Row Column Cluster seeds isPBF
        distFileFails = Inr res \<and> groupNo res \<le> 1
    \<longrightarrow> events res = []
        \<and> length (group_labels res) = Row \<and> length (totalNum res) = Row
        \<and> length (closest res) = groupNo res \<and> length (furthest res) = groupNo res
        \<and> length (massCenter res) = groupNo res)
   \<and> (performFullK_MeansByClusters E log2f getDisimilarity data Row Column Cluster seeds isPBF
        distFileFails = Inr res \<and> 2 \<le> groupNo res
    \<longrightarrow> events res = evaluation_tail isPBF distFileFails)"
proof -
  have main: "events res = (if groupNo res \<le> 1 then [] else evaluation_tail isPBF distFileFails)
        \<and> length (group_labels res) = Row \<and> length (totalNum res) = Row
        \<and> length (closest res) = groupNo res \<and> length (furthest res) = groupNo res
        \<and> length (massCenter res) = groupNo res"
    if run: "performFullK_MeansByClusters E log2f getDisimilarity data Row Column Cluster seeds
        isPBF distFileFails = Inr res"
  proof -
    from run obtain st where
      loop: "performFullK_Means_loop E getDisimilarity data Row Column Cluster seeds = Inr st"
      by (auto simp: performFullK_MeansByClusters_def split: sum.splits)
    obtain g e n where el: "entropy_loop log2f [0..<Cluster] (storage st) Row ([], Finite 0, 0)
        = (g, e, n)"
      by (cases "entropy_loop log2f [0..<Cluster] (storage st) Row ([], Finite 0, 0)") auto
    obtain io k where ol: "order_loop g (Map.empty, 0) = (io, k)"
      by (cases "order_loop g (Map.empty, 0)") auto
    from run loop el ol obtain labels sizes idx c f mc where
      sg: "set_group io (storage st) (recorder st) Row = Inr (labels, sizes)"
      and rl: "representative_loop getDisimilarity st io [0..<Cluster] ((0, 0), [], [])
                 = Inr (idx, c, f)"
      and ml: "massCenter_loop st io Column [0..<Cluster] [] = Inr mc"
      and res: "res = \<lparr>group_labels = labels, totalNum = sizes, closest = c, furthest = f,
                       massCenter = mc, groupNo = k,
                       events = (if k \<le> 1 then [] else evaluation_tail isPBF distFileFails)\<rparr>"
      by (auto simp: performFullK_MeansByClusters_def split: sum.splits)
    from entropy_loop_result[OF el]
    have gm: "mset g = mset (map (\<lambda>i. (storage st ! i, i)) [0..<Cluster])" by simp
    from order_loop_count[of g Map.empty 0] ol
    have "k = length (filter (\<lambda>it. 0 < fst it) g)" by simp
    with positive_count_mset[OF gm]
    have k: "k = length (filter (\<lambda>i. 0 < storage st ! i) [0..<Cluster])" by simp
    from set_group_length[OF sg] representative_loop_length[OF rl] massCenter_loop_length[OF ml] k
    show ?thesis by (simp add: res)
  qed
  show ?thesis using main by auto
qed


text \<open>The two points of the line again: seeded at 0 and 5 the run ends with one non-empty
  cluster, seeded at 0 and 2 with two.\<close>

lemmas fin_eval = set_group_def Let_def dist_values flt_def is_nan_def val_def
  FLT_MAX_def FLT_MIN_def upt_rec

lemma two_points_single_group:
  "performFullK_MeansByClusters eigen32 log2f
     (\<lambda>center i. row_dist eigen32 ([[Finite 0], [Finite 2]] ! i) center)
     [[Finite 0], [Finite 2]] 2 1 2 [[Finite 0], [Finite 5]] isPBF distFileFails
   = Inr \<lparr>group_labels = [0, 0], totalNum = [2, 2], closest = [(0, 0)], furthest = [(0, 0)],
          massCenter = [([Finite 1], 0)], groupNo = 1, events = []\<rparr>"
  unfolding performFullK_MeansByClusters_def performFullK_Means_loop_def two_points_loop
  by (simp add: fin_eval)

lemma two_points_two_groups:
  "performFullK_MeansByClusters eigen32 log2f
     (\<lambda>center i. row_dist eigen32 ([[Finite 0], [Finite 2]] ! i) center)
     [[Finite 0], [Finite 2]] 2 1 2 [[Finite 0], [Finite 2]] isPBF distFileFails
   = Inr \<lparr>group_labels = [0, 1], totalNum = [1, 1], closest = [(0, 0), (1, 1)],
          furthest = [(0, 0), (0, 1)], massCenter = [([Finite 0], 0), ([Finite 2], 1)],
          groupNo = 2, events = evaluation_tail isPBF distFileFails\<rparr>"
  unfolding performFullK_MeansByClusters_def performFullK_Means_loop_def two_points_apart_loop
  by (simp add: fin_eval)

theorem C10_witness:
  "performFullK_MeansByClusters eigen32 log2f_cr
     (\<lambda>center i. row_dist eigen32 ([[Finite 0], [Finite 2]] ! i) center)
     [[Finite 0], [Finite 2]] 2 1 2 [[Finite 0], [Finite 5]] False True
   = Inr \<lparr>group_labels = [0, 0], totalNum = [2, 2], closest = [(0, 0)], furthest = [(0, 0)],
          massCenter = [([Finite 1], 0)], groupNo = 1, events = []\<rparr>
   \<and> groupNo \<lparr>group_labels = [0, 0], totalNum = [2, 2], closest = [(0, 0)], furthest = [(0, 0)],
          massCenter = [([Finite 1], 0)], groupNo = 1, events = []\<rparr> \<le> 1
   \<and> performFullK_MeansByClusters eigen32 log2f_cr
     (\<lambda>center i. row_dist eigen32 ([[Finite 0], [Finite 2]] ! i) center)
     [[Finite 0], [Finite 2]] 2 1 2 [[Finite 0], [Finite 2]] False True
   = Inr \<lparr>group_labels = [0, 1], totalNum = [1, 1], closest = [(0, 0), (1, 1)],
          furthest = [(0, 0), (0, 1)], massCenter = [([Finite 0], 0), ([Finite 2], 1)],
          groupNo = 2,
          events = [DeleteDistanceMatrix, OpenDistFile, ComputeDistanceMatrix, WriteDistFile,
                    SilhouetteCompute, TimeRecord ''For norm '',
                    TimeRecord ''Clustering evaluation computing takes: '',
                    ValidityCompute, TimeRecord ''kmeans Validity measure is: '', WriteReadme]\<rparr>"
proof -
  let ?P = "[[Finite 0], [Finite 2]]"
  let ?dis = "\<lambda>center i. row_dist eigen32 (?P ! i) center"
  let ?A = "\<lparr>group_labels = [0, 0], totalNum = [2, 2], closest = [(0, 0)], furthest = [(0, 0)],
          massCenter = [([Finite 1], 0)], groupNo = 1, events = []\<rparr>"
  let ?B = "\<lparr>group_labels = [0, 1], totalNum = [1, 1], closest = [(0, 0), (1, 1)],
          furthest = [(0, 0), (0, 1)], massCenter = [([Finite 0], 0), ([Finite 2], 1)],
          groupNo = 2, events = evaluation_tail False True\<rparr>"
  have a: "performFullK_MeansByClusters eigen32 log2f_cr ?dis ?P 2 1 2 [[Finite 0], [Finite 5]]
      False True = Inr ?A"
    by (rule two_points_single_group)
  have b: "performFullK_MeansByClusters eigen32 log2f_cr ?dis ?P 2 1 2 [[Finite 0], [Finite 2]]
      False True = Inr ?B"
    by (rule two_points_two_groups)
  from C10_single_group_returns_early[where E = eigen32 and log2f = log2f_cr
      and getDisimilarity = ?dis and data = ?P and Row = 2 and Column = 1 and Cluster = 2
      and seeds = "[[Finite 0], [Finite 5]]" and isPBF = False and distFileFails = True
      and res = ?A] a
  have ea: "events ?A = []" by simp
  from C10_single_group_returns_early[where E = eigen32 and log2f = log2f_cr
      and getDisimilarity = ?dis and data = ?P and Row = 2 and Column = 1 and Cluster = 2
      and seeds = "[[Finite 0], [Finite 2]]" and isPBF = False and distFileFails = True
      and res = ?B] b
  have eb: "events ?B = evaluation_tail False True" by simp
  from a b ea eb show ?thesis by (simp add: evaluation_tail_def)
qed

section \<open>The merger ends\<close>

text \<open>From a state of a run the loop of the merger ends: every round that yields a state
  has one live node less, and a round that leaves a single node has no candidate pair
  left (the read of \<open>tempVec[-1]\<close>).\<close>

lemma merge_loop_ends:
  "ahc_inv Row s \<Longrightarrow> \<exists>r. merge_loop dflt D numberOfClusters s = Some r"
proof (induction "length (nodeMap s)" arbitrary: s rule: less_induct)
  case less
  show ?case
  proof (cases "merge_step dflt D s")
    case (Inl e)
    then show ?thesis by (subst merge_loop.simps) simp
  next
    case (Inr s')
    from ahc_inv_step[OF less.prems Inr] have inv': "ahc_inv Row s'"
      and cnt: "length (nodeMap s') + 1 = length (nodeMap s)" by simp_all
    show ?thesis
    proof (cases "length (nodeMap s') \<noteq> numberOfClusters")
      case False
      with Inr show ?thesis by (subst merge_loop.simps) simp
    next
      case True
      from cnt have "length (nodeMap s') < length (nodeMap s)" by simp
      from less.hyps[OF this inv'] obtain r where "merge_loop dflt D numberOfClusters s' = Some r"
        by blast
      with Inr True show ?thesis by (subst merge_loop.simps) simp
    qed
  qed
qed

lemma hierarchicalMerging_ends:
  assumes "setValue D Row = Inr dv"
  shows "\<exists>r. hierarchicalMerging dflt D Row numberOfClusters dv = Some r"
proof (cases "ahc_init dflt Row dv")
  case (Inl e)
  then show ?thesis by (simp add: hierarchicalMerging_def)
next
  case (Inr s0)
  from ahc_init_inv[OF assms Inr] have "ahc_inv Row s0" .
  from merge_loop_ends[OF this] obtain r where "merge_loop dflt D numberOfClusters s0 = Some r"
    by blast
  with Inr show ?thesis
    by (cases r) (simp_all add: hierarchicalMerging_def)
qed


subsection \<open>Finite distances\<close>

lemma sum_list_below:
  fixes xs :: "real list"
  shows "xs \<noteq> [] \<Longrightarrow> \<forall>x\<in>set xs. x < c \<Longrightarrow> sum_list xs < real (length xs) * c"
proof (induction xs)
  case Nil
  then show ?case by simp
next
  case (Cons x xs)
  show ?case
  proof (cases "xs = []")
    case True
    with Cons.prems show ?thesis by simp
  next
    case False
    with Cons have "sum_list xs < real (length xs) * c" by simp
    moreover from Cons.prems have "x < c" by simp
    ultimately show ?thesis by (simp add: algebra_simps)
  qed
qed

lemma finite_distances_entry:
  assumes "finite_distances Row D" "i < Row" "j < Row"
  shows "D ! i ! j < FLT_MAX"
proof -
  from assms(1,2) have "D ! i \<in> set D" by (simp add: finite_distances_def)
  with assms(1) have "length (D ! i) = Row" "list_all (\<lambda>x. x < FLT_MAX) (D ! i)"
    by (auto simp: finite_distances_def list_all_iff)
  with assms(3) show ?thesis by (simp add: list_all_length)
qed

lemma finite_distances_mcols:
  assumes "finite_distances Row D" "0 < Row"
  shows "mcols D = Row"
proof -
  from assms obtain r rs where D: "D = r # rs" by (cases D) (auto simp: finite_distances_def)
  with assms(1) have "length r = Row" by (simp add: finite_distances_def)
  with D show ?thesis by (simp add: mcols_def)
qed

lemma getDistAtNodes_below:
  assumes fin: "finite_distances Row D" and v: "getDistAtNodes A B D = Inr v"
  shows "v < FLT_MAX"
proof -
  let ?m = "length A" and ?n = "length B"
  from v have m0: "0 < ?m" and n0: "0 < ?n" and mD: "?m \<le> length D" and nD: "?n \<le> mcols D"
    and val: "v = sum_list (map (\<lambda>i. sum_list (map (\<lambda>j. D ! i ! j) [0..<?n])) [0..<?m])
                  / real (?m * ?n)"
    by (auto simp: getDistAtNodes_def Let_def split: if_splits)
  from fin mD have mR: "?m \<le> Row" by (simp add: finite_distances_def)
  with m0 have R0: "0 < Row" by arith
  from finite_distances_mcols[OF fin R0] nD have nR: "?n \<le> Row" by simp
  have inner: "sum_list (map (\<lambda>j. D ! i ! j) [0..<?n]) < real ?n * FLT_MAX" if "i < ?m" for i
  proof -
    have "\<forall>x\<in>set (map (\<lambda>j. D ! i ! j) [0..<?n]). x < FLT_MAX"
      using that mR nR by (auto intro!: finite_distances_entry[OF fin])
    moreover have "map (\<lambda>j. D ! i ! j) [0..<?n] \<noteq> []" using n0 by simp
    ultimately have "sum_list (map (\<lambda>j. D ! i ! j) [0..<?n])
        < real (length (map (\<lambda>j. D ! i ! j) [0..<?n])) * FLT_MAX"
      by (rule sum_list_below[rotated])
    then show ?thesis by simp
  qed
  let ?rows = "map (\<lambda>i. sum_list (map (\<lambda>j. D ! i ! j) [0..<?n])) [0..<?m]"
  have "\<forall>x\<in>set ?rows. x < real ?n * FLT_MAX" using inner by auto
  moreover have "?rows \<noteq> []" using m0 by simp
  ultimately have "sum_list ?rows < real (length ?rows) * (real ?n * FLT_MAX)"
    by (rule sum_list_below[rotated])
  then have "sum_list ?rows < real (?m * ?n) * FLT_MAX" by (simp add: algebra_simps)
  moreover from m0 n0 have "0 < real (?m * ?n)" by simp
  ultimately have "sum_list ?rows / real (?m * ?n) < FLT_MAX"
    by (simp add: field_simps)
  with val show ?thesis by simp
qed

lemma getDistAtNodes_defined:
  assumes fin: "finite_distances Row D" and "A \<noteq> []" "B \<noteq> []"
    and "length A \<le> Row" "length B \<le> Row" "length A * length B \<le> INT_MAX"
  shows "\<exists>v. getDistAtNodes A B D = Inr v"
proof -
  from assms(2) have "0 < length A" by simp
  with assms(4) have "0 < Row" by arith
  from finite_distances_mcols[OF fin this] fin assms show ?thesis
    by (simp add: getDistAtNodes_def Let_def finite_distances_def)
qed

subsection \<open>The running minimum over finite distances\<close>

lemma push_node_pushed: "pushed_ok acc \<Longrightarrow> distance d < FLT_MAX \<Longrightarrow> pushed_ok (push_node d acc)"
  by (cases acc) (auto simp: push_node_def pushed_ok_def)

lemma scan_loop_pushed:
  "pushed_ok acc \<Longrightarrow> list_all (\<lambda>d. distance d < FLT_MAX) dv \<Longrightarrow> pushed_ok (scan_loop dv acc)"
  by (induction dv arbitrary: acc) (simp_all add: push_node_pushed)

lemma copy_loop_pushed:
  "pushed_ok acc \<Longrightarrow> list_all (\<lambda>d. distance d < FLT_MAX) dv \<Longrightarrow> pushed_ok (copy_loop p dv acc)"
  by (induction dv arbitrary: acc) (simp_all add: push_node_pushed)

lemma link_loop_pushed:
  "link_loop D newNode m acc = Inr acc' \<Longrightarrow> finite_distances Row D \<Longrightarrow> pushed_ok acc
     \<Longrightarrow> pushed_ok acc'"
proof (induction m arbitrary: acc)
  case Nil
  then show ?case by simp
next
  case (Cons it m)
  show ?case
  proof (cases "int (fst it) \<noteq> index newNode")
    case False
    with Cons.prems(1) have "link_loop D newNode m acc = Inr acc'" by simp
    from Cons.IH[OF this Cons.prems(2,3)] show ?thesis .
  next
    case True
    with Cons.prems(1) obtain v where
      v: "getDistAtNodes (element newNode) (element (snd it)) D = Inr v"
      and r: "link_loop D newNode m
                (push_node \<lparr>first = fst it, second = nat (index newNode), distance = v\<rparr> acc) = Inr acc'"
      by (auto split: sum.splits)
    from getDistAtNodes_below[OF Cons.prems(2) v] Cons.prems(3)
    have "pushed_ok (push_node \<lparr>first = fst it, second = nat (index newNode), distance = v\<rparr> acc)"
      by (intro push_node_pushed) simp_all
    from Cons.IH[OF r Cons.prems(2) this] show ?thesis .
  qed
qed

lemma link_loop_defined:
  "\<forall>kv\<in>set m. int (fst kv) \<noteq> index newNode
        \<longrightarrow> (\<exists>v. getDistAtNodes (element newNode) (element (snd kv)) D = Inr v)
     \<Longrightarrow> \<exists>acc'. link_loop D newNode m acc = Inr acc'"
proof (induction m arbitrary: acc)
  case Nil
  show ?case by (simp del: split_paired_Ex)
next
  case (Cons it m)
  from Cons.prems have rest: "\<forall>kv\<in>set m. int (fst kv) \<noteq> index newNode
        \<longrightarrow> (\<exists>v. getDistAtNodes (element newNode) (element (snd kv)) D = Inr v)" by simp
  show ?case
  proof (cases "int (fst it) \<noteq> index newNode")
    case False
    from Cons.IH[OF rest, of acc] False show ?thesis by (simp del: split_paired_Ex)
  next
    case True
    with Cons.prems obtain v where v: "getDistAtNodes (element newNode) (element (snd it)) D = Inr v"
      by auto
    from Cons.IH[OF rest,
        of "push_node \<lparr>first = fst it, second = nat (index newNode), distance = v\<rparr> acc"]
    obtain acc' where "link_loop D newNode m
        (push_node \<lparr>first = fst it, second = nat (index newNode), distance = v\<rparr> acc) = Inr acc'"
      by blast
    with True v show ?thesis by (simp del: split_paired_Ex)
  qed
qed


subsection \<open>A round on a matrix of finite distances\<close>

lemma member_concat_length: "x \<in> set xs \<Longrightarrow> length (f x) \<le> length (concat (map f xs))"
  by (induction xs) auto

lemma rebuild_pairs_unfold:
  assumes inv: "ahc_inv Row s"
  shows "\<exists>na nb. map_of (nodeMap s) (first (poped s)) = Some na
      \<and> map_of (nodeMap s) (second (poped s)) = Some nb
      \<and> first (poped s) \<noteq> second (poped s)
      \<and> rebuild_pairs dflt D s =
          (let newNode = \<lparr>index = int (new_index s), element = element na @ element nb\<rparr>;
               m4 = filter (\<lambda>kv. fst kv \<noteq> first (poped s) \<and> fst kv \<noteq> second (poped s)) (nodeMap s)
                      @ [(new_index s, newNode)]
           in if INT_MAX < length m4 * (length m4 - 1) then Inl IntOverflow
              else case link_loop D newNode m4 (copy_loop (poped s) (dNodeVec s) ([], - 1, FLT_MAX)) of
                     Inl e \<Rightarrow> Inl e
                   | Inr acc \<Rightarrow> Inr (m4, acc))"
proof -
  let ?m = "nodeMap s" and ?a = "first (poped s)" and ?b = "second (poped s)"
    and ?N = "new_index s"
  let ?m' = "filter (\<lambda>kv. fst kv \<noteq> ?a \<and> fst kv \<noteq> ?b) ?m"
  from inv have pairs: "one_entry_per_pair ?m (dNodeVec s)" and pin: "poped s \<in> set (dNodeVec s)"
    and below: "list_all (\<lambda>kv. fst kv < ?N) ?m"
    by (simp_all add: ahc_inv_def)
  from poped_live[OF pairs pin] have ak: "?a \<in> fst ` set ?m" and bk: "?b \<in> fst ` set ?m"
    and ab: "?a \<noteq> ?b" by simp_all
  from map_of_key[OF ak] obtain na where na: "map_of ?m ?a = Some na" by blast
  from map_of_key[OF bk] obtain nb where nb: "map_of ?m ?b = Some nb" by blast
  from below have fresh: "?N \<notin> fst ` set ?m" by (auto simp: list_all_iff)
  then have none: "map_of ?m ?N = None" by (simp add: map_of_eq_None_iff)
  from fresh ak have Na: "?N \<noteq> ?a" by metis
  from fresh bk have Nb: "?N \<noteq> ?b" by metis
  let ?nn = "\<lparr>index = int ?N, element = element na @ element nb\<rparr>"
  have m3: "nm_insert ?N ?nn ?m = ?m @ [(?N, ?nn)]" by (simp add: nm_insert_def none)
  have m4': "nm_erase ?b (nm_erase ?a (?m @ [(?N, ?nn)])) = ?m' @ [(?N, ?nn)]"
    using Na Nb by (simp add: nm_erase_def)
  have "rebuild_pairs dflt D s =
          (let newNode = ?nn; m4 = ?m' @ [(?N, newNode)]
           in if INT_MAX < length m4 * (length m4 - 1) then Inl IntOverflow
              else case link_loop D newNode m4 (copy_loop (poped s) (dNodeVec s) ([], - 1, FLT_MAX)) of
                     Inl e \<Rightarrow> Inl e
                   | Inr acc \<Rightarrow> Inr (m4, acc))"
    by (simp add: rebuild_pairs_def Let_def nm_index_present[OF na] nm_index_present[OF nb]
        m3 m4' cong: sum.case_cong)
  with na nb ab show ?thesis by blast
qed

lemma rebuild_pairs_defined:
  assumes inv: "ahc_inv Row s" and fin: "finite_distances Row D"
  shows "\<exists>m4 tempVec target minDist. rebuild_pairs dflt D s = Inr (m4, tempVec, target, minDist)"
proof -
  let ?m = "nodeMap s" and ?a = "first (poped s)" and ?b = "second (poped s)"
    and ?N = "new_index s"
  let ?m' = "filter (\<lambda>kv. fst kv \<noteq> ?a \<and> fst kv \<noteq> ?b) ?m"
  from rebuild_pairs_unfold[OF inv, of dflt D] obtain na nb where
    na: "map_of ?m ?a = Some na" and nb: "map_of ?m ?b = Some nb" and ab: "?a \<noteq> ?b"
    and rb: "rebuild_pairs dflt D s =
          (let newNode = \<lparr>index = int ?N, element = element na @ element nb\<rparr>;
               m4 = ?m' @ [(?N, newNode)]
           in if INT_MAX < length m4 * (length m4 - 1) then Inl IntOverflow
              else case link_loop D newNode m4 (copy_loop (poped s) (dNodeVec s) ([], - 1, FLT_MAX)) of
                     Inl e \<Rightarrow> Inl e
                   | Inr acc \<Rightarrow> Inr (m4, acc))"
    by blast
  let ?nn = "\<lparr>index = int ?N, element = element na @ element nb\<rparr>"
  let ?m4 = "?m' @ [(?N, ?nn)]"
  from inv have dist: "distinct (map fst ?m)"
    and part: "mset (concat (map (\<lambda>kv. element (snd kv)) ?m)) = mset [0..<Row]"
    and ne: "list_all (\<lambda>kv. element (snd kv) \<noteq> []) ?m"
    and below: "list_all (\<lambda>kv. fst kv < ?N) ?m"
    and len: "length ?m \<le> Row" and ovf: "Row * (Row - 1) \<le> INT_MAX"
    by (simp_all add: ahc_inv_def live_elements_def)
  from na have ain: "(?a, na) \<in> set ?m" by (rule map_of_SomeD)
  from nb have bin: "(?b, nb) \<in> set ?m" by (rule map_of_SomeD)
  from ain have ak: "?a \<in> fst ` set ?m" by force
  from bin have bk: "?b \<in> fst ` set ?m" by force
  from removed_two[OF dist ak bk ab] have cnt: "length ?m4 + 1 = length ?m" by simp
  with len have l4: "length ?m4 \<le> Row - 1" by simp
  then have "length ?m4 * (length ?m4 - 1) \<le> (Row - 1) * (Row - 1)"
    by (intro mult_le_mono) simp_all
  also have "\<dots> \<le> Row * (Row - 1)" by simp
  finally have no_ovf: "\<not> INT_MAX < length ?m4 * (length ?m4 - 1)" using ovf by simp
  have "mset (concat (map (\<lambda>kv. element (snd kv)) ?m))
      = mset (element na) + mset (concat (map (\<lambda>kv. element (snd kv)) (filter (\<lambda>kv. fst kv \<noteq> ?a) ?m)))"
    by (rule elements_split[OF dist na])
  also have "mset (concat (map (\<lambda>kv. element (snd kv)) (filter (\<lambda>kv. fst kv \<noteq> ?a) ?m)))
      = mset (element nb) + mset (concat (map (\<lambda>kv. element (snd kv)) ?m'))"
    using elements_split[of "filter (\<lambda>kv. fst kv \<noteq> ?a) ?m" ?b nb] dist nb ab
    by (simp add: distinct_map_filter map_of_filter_other)
  finally have "size (mset [0..<Row])
      = size (mset (element na) + (mset (element nb) + mset (concat (map (\<lambda>kv. element (snd kv)) ?m'))))"
    using part by simp
  then have total: "Row = length (element na) + length (element nb)
      + length (concat (map (\<lambda>kv. element (snd kv)) ?m'))" by simp
  from ne ain have nea: "element na \<noteq> []" by (auto simp: list_all_iff)
  have "\<exists>v. getDistAtNodes (element ?nn) (element (snd kv)) D = Inr v"
    if kv: "kv \<in> set ?m4" "int (fst kv) \<noteq> index ?nn" for kv
  proof -
    from kv have k': "kv \<in> set ?m'" by auto
    then have "kv \<in> set ?m" by simp
    with ne have nek: "element (snd kv) \<noteq> []" by (auto simp: list_all_iff)
    from member_concat_length[OF k', of "\<lambda>kv. element (snd kv)"] total
    have sum: "length (element ?nn) + length (element (snd kv)) \<le> Row" by simp
    from nea have x0: "0 < length (element ?nn)" by simp
    from nek have y0: "0 < length (element (snd kv))" by simp
    from sum x0 y0 have "length (element ?nn) \<le> Row - 1" "length (element (snd kv)) \<le> Row - 1"
      by arith+
    then have "length (element ?nn) * length (element (snd kv)) \<le> (Row - 1) * (Row - 1)"
      by (rule mult_le_mono)
    also have "\<dots> \<le> Row * (Row - 1)" by simp
    finally have prod: "length (element ?nn) * length (element (snd kv)) \<le> INT_MAX"
      using ovf by simp
    from sum have "length (element ?nn) \<le> Row" "length (element (snd kv)) \<le> Row" by arith+
    with getDistAtNodes_defined[OF fin _ nek _ _ prod, of ] nea show ?thesis by simp
  qed
  then have "\<forall>kv\<in>set ?m4. int (fst kv) \<noteq> index ?nn
        \<longrightarrow> (\<exists>v. getDistAtNodes (element ?nn) (element (snd kv)) D = Inr v)" by blast
  from link_loop_defined[OF this, of "copy_loop (poped s) (dNodeVec s) ([], - 1, FLT_MAX)"]
  obtain acc where "link_loop D ?nn ?m4 (copy_loop (poped s) (dNodeVec s) ([], - 1, FLT_MAX)) = Inr acc"
    by blast
  with rb no_ovf have "rebuild_pairs dflt D s = Inr (?m4, acc)" by (simp add: Let_def)
  then show ?thesis by (cases acc) auto
qed

text \<open>With at least three live nodes and finite distances a round yields the next
  state.\<close>

lemma merge_step_progress:
  assumes inv: "ahc_inv Row s" and fin: "finite_distances Row D"
    and dl: "list_all (\<lambda>d. distance d < FLT_MAX) (dNodeVec s)"
    and three: "3 \<le> length (nodeMap s)"
  shows "\<exists>s'. merge_step dflt D s = Inr s' \<and> list_all (\<lambda>d. distance d < FLT_MAX) (dNodeVec s')"
proof -
  from rebuild_pairs_defined[OF inv fin, of dflt] obtain m4 tempVec target minDist where
    rb: "rebuild_pairs dflt D s = Inr (m4, tempVec, target, minDist)" by blast
  let ?m = "nodeMap s" and ?a = "first (poped s)" and ?b = "second (poped s)"
    and ?N = "new_index s"
  let ?m' = "filter (\<lambda>kv. fst kv \<noteq> ?a \<and> fst kv \<noteq> ?b) ?m"
  from rebuild_pairs_char[OF inv rb] obtain na nb news where
    na: "map_of ?m ?a = Some na" and nb: "map_of ?m ?b = Some nb" and ab: "?a \<noteq> ?b"
    and m4: "m4 = ?m' @ [(?N, \<lparr>index = int ?N, element = element na @ element nb\<rparr>)]"
    and tv: "tempVec = filter (unrelated (poped s)) (dNodeVec s) @ news"
    and nw: "map (\<lambda>d. (first d, second d)) news = map (\<lambda>kv. (fst kv, ?N)) ?m'"
    by blast
  from inv have dist: "distinct (map fst ?m)"
    and below: "list_all (\<lambda>kv. fst kv < ?N) ?m"
    and pairs: "one_entry_per_pair ?m (dNodeVec s)"
    by (simp_all add: ahc_inv_def)
  from below have fresh: "?N \<notin> fst ` set ?m" by (auto simp: list_all_iff)
  from na have "(?a, na) \<in> set ?m" by (rule map_of_SomeD)
  then have ak: "?a \<in> fst ` set ?m" by force
  from nb have "(?b, nb) \<in> set ?m" by (rule map_of_SomeD)
  then have bk: "?b \<in> fst ` set ?m" by force
  have p4: "one_entry_per_pair m4 tempVec"
    unfolding m4 tv by (rule rebuilt_pairs_ok[OF pairs dist fresh ak bk refl refl refl nw])
  have "?N \<notin> fst ` set ?m'" using below by (auto simp: list_all_iff)
  then have d4: "distinct (map fst m4)" using dist by (simp add: m4 distinct_map_filter)
  from pairs_length[OF p4 d4] have lt: "length tempVec = length m4 * (length m4 - 1) div 2" .
  from removed_two[OF dist ak bk ab] have cnt: "length m4 + 1 = length ?m" by (simp add: m4)
  with three have "2 \<le> length m4" by simp
  then have "2 * 1 \<le> length m4 * (length m4 - 1)" by (intro mult_le_mono) simp_all
  with lt have ne: "tempVec \<noteq> []" by auto
  from rb obtain newNode where lk: "link_loop D newNode m4
      (copy_loop (poped s) (dNodeVec s) ([], - 1, FLT_MAX)) = Inr (tempVec, target, minDist)"
    by (auto simp: rebuild_pairs_def Let_def split: prod.splits if_splits sum.splits)
  have "pushed_ok (copy_loop (poped s) (dNodeVec s) ([], - 1, FLT_MAX))"
    by (rule copy_loop_pushed[OF _ dl]) (simp add: pushed_ok_def)
  from link_loop_pushed[OF lk fin this] have po: "pushed_ok (tempVec, target, minDist)" .
  with ne have tg: "0 \<le> target" and all: "list_all (\<lambda>d. distance d < FLT_MAX) tempVec"
    by (simp_all add: pushed_ok_def)
  from rb lt tg have "merge_step dflt D s
      = Inr \<lparr>nodeMap = m4, dNodeVec = tempVec, poped = tempVec ! nat target,
             new_index = ?N + 1\<rparr>"
    by (simp add: merge_step_def Let_def)
  with all show ?thesis by simp
qed

lemma merge_loop_target:
  "ahc_inv Row s \<Longrightarrow> finite_distances Row D \<Longrightarrow>
     list_all (\<lambda>d. distance d < FLT_MAX) (dNodeVec s) \<Longrightarrow>
     2 \<le> numberOfClusters \<Longrightarrow> numberOfClusters < length (nodeMap s) \<Longrightarrow>
     \<exists>s'. merge_loop dflt D numberOfClusters s = Some (Inr s')
          \<and> length (nodeMap s') = numberOfClusters"
proof (induction "length (nodeMap s)" arbitrary: s rule: less_induct)
  case less
  from less.prems(4,5) have "3 \<le> length (nodeMap s)" by simp
  from merge_step_progress[OF less.prems(1,2,3) this, of dflt] obtain s1 where
    st: "merge_step dflt D s = Inr s1"
    and dl: "list_all (\<lambda>d. distance d < FLT_MAX) (dNodeVec s1)" by blast
  from ahc_inv_step[OF less.prems(1) st] have inv1: "ahc_inv Row s1"
    and cnt: "length (nodeMap s1) + 1 = length (nodeMap s)" by simp_all
  show ?case
  proof (cases "length (nodeMap s1) = numberOfClusters")
    case True
    with st show ?thesis by (subst merge_loop.simps) simp
  next
    case False
    with cnt less.prems(5) have gt: "numberOfClusters < length (nodeMap s1)" by simp
    from cnt have "length (nodeMap s1) < length (nodeMap s)" by simp
    from less.hyps[OF this inv1 less.prems(2) dl less.prems(4) gt]
    obtain s' where "merge_loop dflt D numberOfClusters s1 = Some (Inr s')"
      "length (nodeMap s') = numberOfClusters" by blast
    with st False show ?thesis by (subst merge_loop.simps) simp
  qed
qed

lemma node_sort_length: "length (foldr node_insort xs []) = length xs"
proof -
  have "size (mset (foldr node_insort xs [])) = size (mset xs)" by (simp only: node_sort_mset)
  then show ?thesis by simp
qed

text \<open>
  For a target of at least two and below the number of curves, on a matrix of finite
  distances, \<open>hierarchicalMerging\<close> returns, with exactly the target number of nodes.
\<close>

lemma hierarchicalMerging_target:
  assumes sv: "setValue D Row = Inr dv" and fin: "finite_distances Row D"
    and k: "2 \<le> numberOfClusters" "numberOfClusters < Row"
  shows "\<exists>nodeVec. hierarchicalMerging dflt D Row numberOfClusters dv = Some (Inr nodeVec)
      \<and> length nodeVec = numberOfClusters"
proof -
  from sv have dv: "dv = concat (map (\<lambda>i. map (\<lambda>j. \<lparr>first = i, second = j, distance = D ! i ! j\<rparr>)
                              [i + 1..<Row]) [0..<Row - 1])"
    by (simp add: setValue_result)
  have len: "length dv = Row * (Row - 1) div 2" unfolding dv by (rule filled_length)
  have dl: "list_all (\<lambda>d. distance d < FLT_MAX) dv"
    unfolding dv by (auto simp: list_all_iff intro!: finite_distances_entry[OF fin])
  from k have "3 \<le> Row" by simp
  then have "3 * 2 \<le> Row * (Row - 1)" by (intro mult_le_mono) simp_all
  with len have ne: "dv \<noteq> []" by auto
  obtain scanned target minDist where sc: "scan_loop dv ([], - 1, FLT_MAX) = (scanned, target, minDist)"
    by (cases "scan_loop dv ([], - 1, FLT_MAX)") auto
  have "pushed_ok (scan_loop dv ([], - 1, FLT_MAX))"
    by (rule scan_loop_pushed[OF _ dl]) (simp add: pushed_ok_def)
  moreover have "fst (scan_loop dv ([], - 1, FLT_MAX)) = dv" by (simp add: scan_loop_fst)
  ultimately have "0 \<le> target" using sc ne by (auto simp: pushed_ok_def)
  with sc obtain s0 where init: "ahc_init dflt Row dv = Inr s0"
    and s0: "nodeMap s0 = map (\<lambda>i. (i, \<lparr>index = dflt, element = [i]\<rparr>)) [0..<Row]"
      "dNodeVec s0 = dv"
    by (simp add: ahc_init_def)
  from ahc_init_inv[OF sv init] have inv: "ahc_inv Row s0" .
  from s0 k have gt: "numberOfClusters < length (nodeMap s0)" by simp
  from dl s0 have dl0: "list_all (\<lambda>d. distance d < FLT_MAX) (dNodeVec s0)" by simp
  from merge_loop_target[OF inv fin dl0 k(1) gt, of dflt] obtain s' where
    "merge_loop dflt D numberOfClusters s0 = Some (Inr s')" "length (nodeMap s') = numberOfClusters"
    by blast
  with init show ?thesis by (simp add: hierarchicalMerging_def node_sort_length)
qed

end
